theory Spec2Isabelle
  imports Main "HOL-Library.Word"
begin

section \<open>Data model of the ingestion assets\<close>

text \<open>
  The module \<^verbatim>\<open>assets/ingestion.py\<close> holds three embedding assets
  (\<^verbatim>\<open>github_issues_embeddings\<close>, \<^verbatim>\<open>github_discussions_embeddings\<close>,
  \<^verbatim>\<open>docs_embedding\<close>) and the scraping asset \<^verbatim>\<open>docs_scrape_raw\<close>.
  Python values that can occur in a document's metadata are a datatype; only the
  constructor matters to \<^verbatim>\<open>isinstance\<close>, never the payload. A float is kept as
  mantissa and binary exponent, or one of the special values.
\<close>

datatype pyfloat = Float int int | Infinity bool | NaN

datatype pyval =
    VStr string
  | VInt int
  | VFloat pyfloat
  | VBool bool
  | VNone
  | VList "pyval list"
  | VDict "(string \<times> pyval) list"

text \<open>
  A Python \<^verbatim>\<open>dict\<close> keeps its keys in insertion order and holds every key once:
  an association list whose keys are distinct.
\<close>

type_synonym pydict = "(string \<times> pyval) list"

definition wf_dict :: "pydict \<Rightarrow> bool" where
  "wf_dict d = distinct (map fst d)"

text \<open>\<^verbatim>\<open>d[k] = v\<close>: an existing key keeps its position, a new key goes last.\<close>

fun dict_setitem :: "pydict \<Rightarrow> string \<Rightarrow> pyval \<Rightarrow> pydict" where
  "dict_setitem [] k v = [(k, v)]"
| "dict_setitem ((k', v') # d) k v =
     (if k' = k then (k', v) # d else (k', v') # dict_setitem d k v)"

text \<open>A \<^verbatim>\<open>langchain_core\<close> Document, as far as the assets read it.\<close>

record document =
  page_content :: string
  metadata :: pydict

type_synonym vector = "pyfloat list"

type_synonym vector_record = "string \<times> vector \<times> pydict"

section \<open>Metadata sanitization\<close>

text \<open>
  \<^verbatim>\<open>isinstance(v, (str, int, float, bool))\<close>. A \<^verbatim>\<open>bool\<close> is an \<^verbatim>\<open>int\<close> in Python,
  so it passes twice over.
\<close>

fun isinstance_primitive :: "pyval \<Rightarrow> bool" where
  "isinstance_primitive (VStr _) = True"
| "isinstance_primitive (VInt _) = True"
| "isinstance_primitive (VFloat _) = True"
| "isinstance_primitive (VBool _) = True"
| "isinstance_primitive VNone = False"
| "isinstance_primitive (VList _) = False"
| "isinstance_primitive (VDict _) = False"

text \<open>
  The comprehension
  \<^verbatim>\<open>{k: v for k, v in doc.metadata.items() if isinstance(v, (str, int, float, bool))}\<close>,
  written three times in the module: it walks the items in order and stores each one
  that passes the test into a dict that starts empty. Nothing in it can raise, so
  the model has no error branch.
\<close>

definition sanitize_step :: "pydict \<Rightarrow> string \<times> pyval \<Rightarrow> pydict" where
  "sanitize_step d kv = (if isinstance_primitive (snd kv) then dict_setitem d (fst kv) (snd kv) else d)"

definition sanitize :: "pydict \<Rightarrow> pydict" where
  "sanitize m = foldl sanitize_step [] m"

section \<open>Library functions the assets call\<close>

text \<open>
  \<^verbatim>\<open>str(i)\<close> of a Python integer: the decimal digits, most significant first, with a
  minus sign for a negative number.
\<close>

definition digit_char :: "nat \<Rightarrow> char" where
  "digit_char d = ''0123456789'' ! d"

fun str_nat :: "nat \<Rightarrow> string" where
  "str_nat n = (if n < 10 then [digit_char n] else str_nat (n div 10) @ [digit_char (n mod 10)])"

declare str_nat.simps [simp del]

definition str_int :: "int \<Rightarrow> string" where
  "str_int i = (if i < 0 then CHR ''-'' # str_nat (nat (- i)) else str_nat (nat i))"

text \<open>\<^verbatim>\<open>range(n)\<close> as the list of its values.\<close>

definition range_list :: "nat \<Rightarrow> int list" where
  "range_list n = map int [0..<n]"

text \<open>
  \<^verbatim>\<open>s.encode()\<close>: UTF-8. A \<^typ>\<open>char\<close> is a code point below 256, so a character
  takes one byte below 128 and two bytes from 128 on. Strings with code points from
  256 on are not in the model.
\<close>

definition encode_char :: "char \<Rightarrow> 8 word list" where
  "encode_char c =
     (let n = (of_char c :: nat)
      in if n < 128 then [of_nat n] else [of_nat (192 + n div 64), of_nat (128 + n mod 64)])"

definition encode :: "string \<Rightarrow> 8 word list" where
  "encode s = concat (map encode_char s)"

text \<open>\<^verbatim>\<open>digest.hexdigest()\<close>: two lowercase hexadecimal digits for each byte.\<close>

definition hex_digits :: string where
  "hex_digits = ''0123456789abcdef''"

definition hex_byte :: "8 word \<Rightarrow> string" where
  "hex_byte b = [hex_digits ! (unat b div 16), hex_digits ! (unat b mod 16)]"

definition hexdigest :: "8 word list \<Rightarrow> string" where
  "hexdigest bs = concat (map hex_byte bs)"

section \<open>Errors, events and the resources\<close>

text \<open>
  An exception is an error value. \<open>External\<close> is any exception a resource raises;
  the other two are raised by the module's own expressions
  (\<^verbatim>\<open>doc.metadata["source"]\<close> and \<^verbatim>\<open>.encode()\<close> on a value that is no string).
\<close>

datatype error = External string | KeyError string | AttributeError

type_synonym kwargs = "(string \<times> string) list"

text \<open>
  What an asset does to the outside world, in order. A pause is in milliseconds:
  \<^verbatim>\<open>time.sleep(1)\<close> is \<open>Sleep 1000\<close> and \<^verbatim>\<open>time.sleep(0.5)\<close> is \<open>Sleep 500\<close>.
\<close>

datatype event =
    CreateIndex string nat
  | GetIndex string string
  | EmbeddingsCreate string "string list"
  | Sleep nat
  | Upsert string "vector_record list" kwargs
  | ParseSitemap
  | ScrapePage string
  | AddOutputMetadata pydict

text \<open>
  The resources are parameters: what each call answers is theirs to say, as a
  function of the arguments of the call. The answer of \<open>embeddings_create\<close> is the
  list \<^verbatim>\<open>[item.embedding for item in response.data]\<close>; opening the client
  (\<^verbatim>\<open>openai.get_client(context)\<close>) is part of the call.
  \<open>get_index\<close> answers the index handle and the namespace arguments; \<open>index_upsert\<close>
  is the handle's \<^verbatim>\<open>upsert\<close>.
\<close>

record openai_resource =
  embeddings_create :: "string \<Rightarrow> string list \<Rightarrow> error + vector list"

record pinecone_resource =
  create_index :: "string \<Rightarrow> nat \<Rightarrow> error + unit"
  get_index :: "string \<Rightarrow> string \<Rightarrow> error + (string \<times> kwargs)"
  index_upsert :: "string \<Rightarrow> vector_record list \<Rightarrow> kwargs \<Rightarrow> error + unit"

record sitemap_scraper =
  parse_sitemap :: "error + string list"
  scrape_page :: "string \<Rightarrow> error + document option"

text \<open>
  A computation yields the events it caused and either an error or a value. An error
  ends the run: what follows it is not executed.
\<close>

type_synonym 'a io = "event list \<times> (error + 'a)"

definition io_return :: "'a \<Rightarrow> 'a io" where
  "io_return a = ([], Inr a)"

definition io_call :: "event \<Rightarrow> error + 'a \<Rightarrow> 'a io" where
  "io_call ev r = ([ev], r)"

definition io_bind :: "'a io \<Rightarrow> ('a \<Rightarrow> 'b io) \<Rightarrow> 'b io" where
  "io_bind m f =
     (case m of
        (t, Inl e) \<Rightarrow> (t, Inl e)
      | (t, Inr a) \<Rightarrow> (case f a of (t', r) \<Rightarrow> (t @ t', r)))"

definition dict_getitem :: "pydict \<Rightarrow> string \<Rightarrow> error + pyval" where
  "dict_getitem d k = (case map_of d k of None \<Rightarrow> Inl (KeyError k) | Some v \<Rightarrow> Inr v)"

definition py_encode :: "pyval \<Rightarrow> error + 8 word list" where
  "py_encode v = (case v of VStr s \<Rightarrow> Inr (encode s) | _ \<Rightarrow> Inl AttributeError)"

section \<open>The assets\<close>

definition model_name :: string where
  "model_name = ''text-embedding-3-small''"

text \<open>\<^verbatim>\<open>zip(ids, embeddings, metadata)\<close>, consumed by the upsert.\<close>

definition zip3 :: "string list \<Rightarrow> vector list \<Rightarrow> pydict list \<Rightarrow> vector_record list" where
  "zip3 ids embeddings metadatas = zip ids (zip embeddings metadatas)"

subsection \<open>\<^verbatim>\<open>github_issues_embeddings\<close>\<close>

definition github_issues_embeddings ::
  "openai_resource \<Rightarrow> pinecone_resource \<Rightarrow> document list \<Rightarrow> pydict io" where
  "github_issues_embeddings openai pinecone github_issues_raw =
     io_bind (io_call (CreateIndex ''dagster-knowledge'' 1536)
                (create_index pinecone ''dagster-knowledge'' 1536)) (\<lambda>_.
     io_bind (io_call (GetIndex ''dagster-knowledge'' ''dagster-github'')
                (get_index pinecone ''dagster-knowledge'' ''dagster-github'')) (\<lambda>(index, namespace_kwargs).
     let texts = map page_content github_issues_raw in
     io_bind (io_call (EmbeddingsCreate model_name texts)
                (embeddings_create openai model_name texts)) (\<lambda>embeddings.
     let metadatas = map (\<lambda>doc. sanitize (metadata doc)) github_issues_raw;
         vectors = zip3 (map str_int (range_list (length texts))) embeddings metadatas in
     io_bind (io_call (Upsert index vectors namespace_kwargs)
                (index_upsert pinecone index vectors namespace_kwargs)) (\<lambda>_.
     io_return [(''number_of_issues'', VInt (int (length github_issues_raw)))]))))"

subsection \<open>\<^verbatim>\<open>github_discussions_embeddings\<close>\<close>

definition BATCH_SIZE :: nat where
  "BATCH_SIZE = 20"

text \<open>
  The loop \<^verbatim>\<open>for i in range(0, len(all_texts), BATCH_SIZE)\<close>, from index \<open>i\<close> on, with
  the embeddings collected so far. Each round slices, calls the provider, extends
  the list and sleeps one second; a failed call ends the run before the sleep.
\<close>

function embed_batches ::
  "openai_resource \<Rightarrow> nat \<Rightarrow> string list \<Rightarrow> nat \<Rightarrow> vector list \<Rightarrow> vector list io" where
  "embed_batches openai batch_size all_texts i all_embeddings =
     (if 0 < batch_size \<and> i < length all_texts then
        (let batch_texts = take batch_size (drop i all_texts) in
         case embeddings_create openai model_name batch_texts of
           Inl e \<Rightarrow> ([EmbeddingsCreate model_name batch_texts], Inl e)
         | Inr batch_embeddings \<Rightarrow>
             (case embed_batches openai batch_size all_texts (i + batch_size)
                     (all_embeddings @ batch_embeddings) of
                (t, r) \<Rightarrow> (EmbeddingsCreate model_name batch_texts # Sleep 1000 # t, r)))
      else ([], Inr all_embeddings))"
  by pat_completeness auto
termination
  by (relation "measure (\<lambda>(openai, batch_size, all_texts, i, all_embeddings). length all_texts - i)") auto

declare embed_batches.simps [simp del]

definition github_discussions_embeddings ::
  "openai_resource \<Rightarrow> pinecone_resource \<Rightarrow> document list \<Rightarrow> pydict io" where
  "github_discussions_embeddings openai pinecone github_discussions_raw =
     io_bind (io_call (CreateIndex ''dagster-knowledge'' 1536)
                (create_index pinecone ''dagster-knowledge'' 1536)) (\<lambda>_.
     io_bind (io_call (GetIndex ''dagster-knowledge'' ''dagster-github'')
                (get_index pinecone ''dagster-knowledge'' ''dagster-github'')) (\<lambda>(index, namespace_kwargs).
     let all_texts = map page_content github_discussions_raw in
     io_bind (embed_batches openai BATCH_SIZE all_texts 0 []) (\<lambda>all_embeddings.
     let metadatas = map (\<lambda>doc. sanitize (metadata doc)) github_discussions_raw;
         vectors = zip3 (map str_int (range_list (length all_texts))) all_embeddings metadatas in
     io_bind (io_call (Upsert index vectors namespace_kwargs)
                (index_upsert pinecone index vectors namespace_kwargs)) (\<lambda>_.
     io_return [(''number_of_discussions'', VInt (int (length github_discussions_raw)))]))))"

subsection \<open>\<^verbatim>\<open>docs_scrape_raw\<close>\<close>

text \<open>
  The loop over the URLs with the documents collected so far. \<^verbatim>\<open>if doc:\<close> tests
  for \<^verbatim>\<open>None\<close>: a Document is always true. The half-second sleep follows every
  scrape that returned.
\<close>

fun scrape_loop :: "sitemap_scraper \<Rightarrow> string list \<Rightarrow> document list \<Rightarrow> document list io" where
  "scrape_loop scraper [] documents = ([], Inr documents)"
| "scrape_loop scraper (url # urls) documents =
     (case scrape_page scraper url of
        Inl e \<Rightarrow> ([ScrapePage url], Inl e)
      | Inr doc \<Rightarrow>
          (case scrape_loop scraper urls
                  (case doc of None \<Rightarrow> documents | Some d \<Rightarrow> documents @ [d]) of
             (t, r) \<Rightarrow> (ScrapePage url # Sleep 500 # t, r)))"

definition docs_scrape_raw :: "sitemap_scraper \<Rightarrow> document list io" where
  "docs_scrape_raw scraper =
     io_bind (io_call ParseSitemap (parse_sitemap scraper)) (\<lambda>sitemap.
     let urls = take 4 sitemap in
     io_bind (scrape_loop scraper urls []) (\<lambda>documents.
     io_bind (io_call (AddOutputMetadata [(''pages scraped'', VInt (int (length urls)))])
                (Inr ())) (\<lambda>_.
     io_return documents)))"

subsection \<open>\<^verbatim>\<open>docs_embedding\<close>\<close>

text \<open>
  MD5 itself is \<^verbatim>\<open>hashlib\<close>'s: a parameter, from bytes to the bytes of the digest.
  \<open>hashlib_md5\<close> below is the function the module imports.
\<close>

definition doc_id :: "(8 word list \<Rightarrow> 8 word list) \<Rightarrow> string \<Rightarrow> string" where
  "doc_id md5 url = hexdigest (md5 (encode url))"

text \<open>
  The loop \<^verbatim>\<open>for doc in docs_scrape_raw\<close> with both lists built so far. The lookup
  of \<^verbatim>\<open>"source"\<close> raises when the key is missing, the \<^verbatim>\<open>.encode()\<close> when the value is
  no string.
\<close>

fun docs_loop ::
  "(8 word list \<Rightarrow> 8 word list) \<Rightarrow> document list \<Rightarrow> pydict list \<Rightarrow> string list \<Rightarrow>
   error + (pydict list \<times> string list)" where
  "docs_loop md5 [] metadatas doc_ids = Inr (metadatas, doc_ids)"
| "docs_loop md5 (doc # docs) metadatas doc_ids =
     (let meta = sanitize (metadata doc) in
      case dict_getitem (metadata doc) ''source'' of
        Inl e \<Rightarrow> Inl e
      | Inr source \<Rightarrow>
          (case py_encode source of
             Inl e \<Rightarrow> Inl e
           | Inr bytes \<Rightarrow>
               docs_loop md5 docs (metadatas @ [meta]) (doc_ids @ [hexdigest (md5 bytes)])))"

text \<open>\<^verbatim>\<open>[doc.metadata["source"] for doc in docs_scrape_raw]\<close>\<close>

fun urls_processed :: "document list \<Rightarrow> error + pyval list" where
  "urls_processed [] = Inr []"
| "urls_processed (doc # docs) =
     (case dict_getitem (metadata doc) ''source'' of
        Inl e \<Rightarrow> Inl e
      | Inr source \<Rightarrow>
          (case urls_processed docs of Inl e \<Rightarrow> Inl e | Inr rest \<Rightarrow> Inr (source # rest)))"

text \<open>\<^verbatim>\<open>len(embeddings[0]) if embeddings else 0\<close>\<close>

definition embedding_dimension :: "vector list \<Rightarrow> int" where
  "embedding_dimension embeddings =
     (case embeddings of [] \<Rightarrow> 0 | e # _ \<Rightarrow> int (length e))"

definition docs_embedding ::
  "(8 word list \<Rightarrow> 8 word list) \<Rightarrow> pinecone_resource \<Rightarrow> openai_resource \<Rightarrow> document list \<Rightarrow>
   pydict io" where
  "docs_embedding md5 pinecone openai docs_scrape_raw' =
     io_bind (io_call (CreateIndex ''dagster-knowledge'' 1536)
                (create_index pinecone ''dagster-knowledge'' 1536)) (\<lambda>_.
     io_bind (io_call (GetIndex ''dagster-knowledge'' ''dagster-docs'')
                (get_index pinecone ''dagster-knowledge'' ''dagster-docs'')) (\<lambda>(index, namespace_kwargs).
     let texts = map page_content docs_scrape_raw' in
     io_bind (io_call (EmbeddingsCreate model_name texts)
                (embeddings_create openai model_name texts)) (\<lambda>embeddings.
     io_bind ([], docs_loop md5 docs_scrape_raw' [] []) (\<lambda>(metadatas, doc_ids).
     let vectors = zip3 doc_ids embeddings metadatas in
     io_bind (io_call (Upsert index vectors namespace_kwargs)
                (index_upsert pinecone index vectors namespace_kwargs)) (\<lambda>_.
     io_bind ([], urls_processed docs_scrape_raw') (\<lambda>urls.
     io_return
       [(''documents_embedded'', VInt (int (length docs_scrape_raw'))),
        (''embedding_dimension'', VInt (embedding_dimension embeddings)),
        (''urls_processed'', VList urls)]))))))"

section \<open>Reading a run\<close>

text \<open>The events of a run, and whether it ended in a value rather than an error.\<close>

definition trace :: "'a io \<Rightarrow> event list" where
  "trace run = fst run"

definition completes :: "'a io \<Rightarrow> bool" where
  "completes run = (case snd run of Inl _ \<Rightarrow> False | Inr _ \<Rightarrow> True)"

text \<open>
  The provider calls of a trace, the records of its upserts, the pages it scraped
  and the output metadata it added, each in order.
\<close>

fun embedding_calls :: "event list \<Rightarrow> string list list" where
  "embedding_calls [] = []"
| "embedding_calls (EmbeddingsCreate m ts # t) = ts # embedding_calls t"
| "embedding_calls (_ # t) = embedding_calls t"

fun upserts :: "event list \<Rightarrow> vector_record list list" where
  "upserts [] = []"
| "upserts (Upsert index vectors kw # t) = vectors # upserts t"
| "upserts (_ # t) = upserts t"

fun scrape_calls :: "event list \<Rightarrow> string list" where
  "scrape_calls [] = []"
| "scrape_calls (ScrapePage url # t) = url # scrape_calls t"
| "scrape_calls (_ # t) = scrape_calls t"

fun output_metadata :: "event list \<Rightarrow> pydict list" where
  "output_metadata [] = []"
| "output_metadata (AddOutputMetadata m # t) = m # output_metadata t"
| "output_metadata (_ # t) = output_metadata t"

text \<open>
  The embeddings a run collects: what the provider returned to its calls,
  concatenated in call order.
\<close>

definition returned_vectors :: "openai_resource \<Rightarrow> string list list \<Rightarrow> vector list" where
  "returned_vectors openai calls =
     concat (map (\<lambda>ts. case embeddings_create openai model_name ts of
                          Inl _ \<Rightarrow> [] | Inr vs \<Rightarrow> vs) calls)"

text \<open>
  The two events of one round of the batch loop; the pauses of a trace; and the test
  that every provider call of a trace is followed at once by the pause of one
  second, the last event of a trace excepted (a call that raised ends the run).
\<close>

definition call_and_pause :: "string list \<Rightarrow> event list" where
  "call_and_pause c = [EmbeddingsCreate model_name c, Sleep 1000]"

definition pauses :: "event list \<Rightarrow> event list" where
  "pauses t = filter (\<lambda>e. case e of Sleep _ \<Rightarrow> True | _ \<Rightarrow> False) t"

fun pauses_follow_calls :: "event list \<Rightarrow> bool" where
  "pauses_follow_calls [] = True"
| "pauses_follow_calls [EmbeddingsCreate m c] = True"
| "pauses_follow_calls (EmbeddingsCreate m c # e # t) = (e = Sleep 1000 \<and> pauses_follow_calls t)"
| "pauses_follow_calls (e # t) = pauses_follow_calls t"

section \<open>Vocabulary of the statements\<close>

text \<open>
  The partition the specification describes: consecutive chunks of at most \<open>b\<close>
  elements, every chunk but the last full. The ceiling of a quotient of naturals.
\<close>

fun chunks :: "nat \<Rightarrow> 'a list \<Rightarrow> 'a list list" where
  "chunks b [] = []"
| "chunks b (x # xs) =
     (if b = 0 then [] else take b (x # xs) # chunks b (drop b (x # xs)))"

declare chunks.simps(2) [simp del]

definition ceil_div :: "nat \<Rightarrow> nat \<Rightarrow> nat" where
  "ceil_div n b = (n + b - 1) div b"

text \<open>
  The three embedding assets under one name, so that a statement can speak of any of
  them. The source URL a document carries, if it carries one as a string, and the id
  each asset assigns to the document at position \<open>i\<close>.
\<close>

datatype embedding_asset = GithubIssues | GithubDiscussions | Docs

definition run_asset ::
  "embedding_asset \<Rightarrow> (8 word list \<Rightarrow> 8 word list) \<Rightarrow> openai_resource \<Rightarrow> pinecone_resource \<Rightarrow>
   document list \<Rightarrow> pydict io" where
  "run_asset a md5 openai pinecone docs =
     (case a of
        GithubIssues \<Rightarrow> github_issues_embeddings openai pinecone docs
      | GithubDiscussions \<Rightarrow> github_discussions_embeddings openai pinecone docs
      | Docs \<Rightarrow> docs_embedding md5 pinecone openai docs)"

definition source_url :: "document \<Rightarrow> string option" where
  "source_url doc =
     (case map_of (metadata doc) ''source'' of Some (VStr url) \<Rightarrow> Some url | _ \<Rightarrow> None)"

definition assigned_id ::
  "embedding_asset \<Rightarrow> (8 word list \<Rightarrow> 8 word list) \<Rightarrow> nat \<Rightarrow> document \<Rightarrow> string option" where
  "assigned_id a md5 i doc =
     (case a of
        Docs \<Rightarrow> map_option (doc_id md5) (source_url doc)
      | _ \<Rightarrow> Some (str_int (int i)))"

text \<open>
  What is assumed of the resources. A provider answers one vector per input text, in
  order, when every list it returns is related to the texts position by position:
  \<open>R t v\<close> reads ``\<open>v\<close> is an embedding of \<open>t\<close>''. A resource returns when none of its
  calls raises.
\<close>

definition one_vector_per_text ::
  "(string \<Rightarrow> vector \<Rightarrow> bool) \<Rightarrow> openai_resource \<Rightarrow> bool" where
  "one_vector_per_text R openai =
     (\<forall>ts vs. embeddings_create openai model_name ts = Inr vs \<longrightarrow> list_all2 R ts vs)"

definition openai_returns :: "openai_resource \<Rightarrow> bool" where
  "openai_returns openai = (\<forall>ts. \<exists>vs. embeddings_create openai model_name ts = Inr vs)"

definition pinecone_returns :: "pinecone_resource \<Rightarrow> bool" where
  "pinecone_returns pinecone =
     ((\<forall>name dimension. create_index pinecone name dimension = Inr ())
    \<and> (\<forall>name namespace. \<exists>index kw. get_index pinecone name namespace = Inr (index, kw))
    \<and> (\<forall>index vectors kw. index_upsert pinecone index vectors kw = Inr ()))"

text \<open>The number a string of decimal digits denotes.\<close>

definition digit_value :: "char \<Rightarrow> nat" where
  "digit_value c = of_char c - 48"

definition decimal_value :: "string \<Rightarrow> nat" where
  "decimal_value s = foldl (\<lambda>acc c. 10 * acc + digit_value c) 0 s"

section \<open>MD5\<close>

text \<open>
  \<^verbatim>\<open>hashlib.md5(data).digest()\<close>, as RFC 1321 defines it: the message is padded with
  the byte 128, zero bytes up to 56 modulo 64, and its length in bits as eight bytes,
  least significant first; each block of 64 bytes is read as sixteen little-endian
  words and goes through 64 steps on a state of four words, which is added to the
  state before the block (the blocks are \<open>chunks 64\<close> of the padded message); the
  digest is the final state, each word least
  significant byte first. The assets take the digest function as a parameter; this
  is the one the module imports.
\<close>

unbundle bit_operations_syntax

definition md5_shifts :: "nat list" where
  "md5_shifts =
     [7, 12, 17, 22, 7, 12, 17, 22, 7, 12, 17, 22, 7, 12, 17, 22,
      5, 9, 14, 20, 5, 9, 14, 20, 5, 9, 14, 20, 5, 9, 14, 20,
      4, 11, 16, 23, 4, 11, 16, 23, 4, 11, 16, 23, 4, 11, 16, 23,
      6, 10, 15, 21, 6, 10, 15, 21, 6, 10, 15, 21, 6, 10, 15, 21]"

definition md5_sines :: "32 word list" where
  "md5_sines =
     [0xd76aa478, 0xe8c7b756, 0x242070db, 0xc1bdceee,
      0xf57c0faf, 0x4787c62a, 0xa8304613, 0xfd469501,
      0x698098d8, 0x8b44f7af, 0xffff5bb1, 0x895cd7be,
      0x6b901122, 0xfd987193, 0xa679438e, 0x49b40821,
      0xf61e2562, 0xc040b340, 0x265e5a51, 0xe9b6c7aa,
      0xd62f105d, 0x02441453, 0xd8a1e681, 0xe7d3fbc8,
      0x21e1cde6, 0xc33707d6, 0xf4d50d87, 0x455a14ed,
      0xa9e3e905, 0xfcefa3f8, 0x676f02d9, 0x8d2a4c8a,
      0xfffa3942, 0x8771f681, 0x6d9d6122, 0xfde5380c,
      0xa4beea44, 0x4bdecfa9, 0xf6bb4b60, 0xbebfbc70,
      0x289b7ec6, 0xeaa127fa, 0xd4ef3085, 0x04881d05,
      0xd9d4d039, 0xe6db99e5, 0x1fa27cf8, 0xc4ac5665,
      0xf4292244, 0x432aff97, 0xab9423a7, 0xfc93a039,
      0x655b59c3, 0x8f0ccc92, 0xffeff47d, 0x85845dd1,
      0x6fa87e4f, 0xfe2ce6e0, 0xa3014314, 0x4e0811a1,
      0xf7537e82, 0xbd3af235, 0x2ad7d2bb, 0xeb86d391]"

definition word_of_bytes :: "8 word list \<Rightarrow> 32 word" where
  "word_of_bytes bs = foldr (\<lambda>b w. ucast b OR push_bit 8 w) bs 0"

definition bytes_of_word :: "32 word \<Rightarrow> 8 word list" where
  "bytes_of_word w = map (\<lambda>k. ucast (drop_bit (8 * k) w)) [0..<4]"

definition rotate_left :: "nat \<Rightarrow> 32 word \<Rightarrow> 32 word" where
  "rotate_left n w = push_bit n w OR drop_bit (32 - n) w"

definition md5_pad :: "8 word list \<Rightarrow> 8 word list" where
  "md5_pad bytes =
     bytes @ [128] @ replicate ((119 - length bytes mod 64) mod 64) 0
     @ map (\<lambda>k. ucast (drop_bit (8 * k) (of_nat (8 * length bytes) :: 64 word))) [0..<8]"

type_synonym md5_state = "32 word \<times> 32 word \<times> 32 word \<times> 32 word"

definition md5_step :: "32 word list \<Rightarrow> md5_state \<Rightarrow> nat \<Rightarrow> md5_state" where
  "md5_step m s i =
     (case s of (a, b, c, d) \<Rightarrow>
        let (f, g) =
              (if i < 16 then ((b AND c) OR (NOT b AND d), i)
               else if i < 32 then ((d AND b) OR (NOT d AND c), (5 * i + 1) mod 16)
               else if i < 48 then (b XOR c XOR d, (3 * i + 5) mod 16)
               else (c XOR (b OR NOT d), (7 * i) mod 16));
            f' = f + a + md5_sines ! i + m ! g
        in (d, b + rotate_left (md5_shifts ! i) f', b, c))"

definition md5_block :: "md5_state \<Rightarrow> 8 word list \<Rightarrow> md5_state" where
  "md5_block s block =
     (let m = map (\<lambda>k. word_of_bytes (take 4 (drop (4 * k) block))) [0..<16]
      in case s of (a0, b0, c0, d0) \<Rightarrow>
           (case foldl (md5_step m) s [0..<64] of (a, b, c, d) \<Rightarrow>
              (a0 + a, b0 + b, c0 + c, d0 + d)))"

definition hashlib_md5 :: "8 word list \<Rightarrow> 8 word list" where
  "hashlib_md5 bytes =
     (case foldl md5_block (0x67452301, 0xefcdab89, 0x98badcfe, 0x10325476)
             (chunks 64 (md5_pad bytes)) of
        (a, b, c, d) \<Rightarrow> concat (map bytes_of_word [a, b, c, d]))"


text \<open>
  An MD5 collision between two URLs: their encodings are different byte strings with
  the same digest.
\<close>

definition md5_collision :: "(8 word list \<Rightarrow> 8 word list) \<Rightarrow> string \<Rightarrow> string \<Rightarrow> bool" where
  "md5_collision md5 url url' =
     (encode url \<noteq> encode url' \<and> md5 (encode url) = md5 (encode url'))"

section \<open>The vector store\<close>

text \<open>
  Modelled from the spec: the vector store behind \<^verbatim>\<open>index.upsert\<close> is the Pinecone
  service, it is not in the module. The specification says of it that an upsert
  writes or overwrites each triple of id, vector and metadata, and that it
  overwrites by equality of the id within the namespace. One namespace of the store
  is a map from ids to what is stored under them; the records are written in order.
\<close>

type_synonym vector_store = "string \<rightharpoonup> vector \<times> pydict"

definition store_upsert :: "vector_store \<Rightarrow> vector_record list \<Rightarrow> vector_store" where
  "store_upsert store records = foldl (\<lambda>s (i, v, m). s(i \<mapsto> (v, m))) store records"

section \<open>Example inputs\<close>

text \<open>
  Resources and documents for the concrete runs below. The provider answers, for
  each text, the one-dimensional vector of its length; \<open>short_openai\<close> answers for
  the first text only. The digest stands in for MD5 in the examples: the last two
  bytes, reversed.
\<close>

definition example_metadata :: pydict where
  "example_metadata =
     [(''title'', VStr ''Asset fails''), (''labels'', VList [VStr ''bug'']),
      (''number'', VInt 7), (''closed_at'', VNone), (''score'', VFloat (Float 3 (- 1))),
      (''user'', VDict [(''login'', VStr ''a'')]), (''locked'', VBool False)]"

definition example_openai :: openai_resource where
  "example_openai =
     \<lparr>embeddings_create = (\<lambda>model ts. Inr (map (\<lambda>t. [Float (int (length t)) 0]) ts))\<rparr>"

definition short_openai :: openai_resource where
  "short_openai =
     \<lparr>embeddings_create = (\<lambda>model ts. Inr (map (\<lambda>t. [Float (int (length t)) 0]) (take 1 ts)))\<rparr>"

definition example_pinecone :: pinecone_resource where
  "example_pinecone =
     \<lparr>create_index = (\<lambda>name dimension. Inr ()),
      get_index = (\<lambda>name namespace. Inr (name, [(''namespace'', namespace)])),
      index_upsert = (\<lambda>index vectors kw. Inr ())\<rparr>"

definition example_digest :: "8 word list \<Rightarrow> 8 word list" where
  "example_digest bytes = take 2 (rev bytes)"

definition example_docs :: "document list" where
  "example_docs =
     [\<lparr>page_content = ''Assets'',
       metadata = [(''source'', VStr ''/a''), (''title'', VStr ''Assets''), (''tags'', VList [])]\<rparr>,
      \<lparr>page_content = ''Ops'',
       metadata = [(''depth'', VInt 2), (''source'', VStr ''/b''), (''parent'', VNone)]\<rparr>]"

definition example_docs_again :: "document list" where
  "example_docs_again =
     [\<lparr>page_content = ''Assets, revised'', metadata = [(''source'', VStr ''/a'')]\<rparr>]"

definition example_discussions :: "document list" where
  "example_discussions =
     map (\<lambda>i. \<lparr>page_content = str_nat i, metadata = [(''number'', VInt (int i))]\<rparr>) [0..<25]"

definition example_scraper :: sitemap_scraper where
  "example_scraper =
     \<lparr>parse_sitemap = Inr [''/a'', ''/gone'', ''/b'', ''/c'', ''/d'', ''/e''],
      scrape_page = (\<lambda>url. Inr (if url = ''/gone'' then None
                                  else Some \<lparr>page_content = url, metadata = [(''source'', VStr url)]\<rparr>))\<rparr>"

text \<open>
  Pages for the docs asset with the real digest; the second URL has a character
  outside ASCII (code point 233), which takes two bytes.
\<close>

definition example_pages :: "document list" where
  "example_pages =
     [\<lparr>page_content = ''Assets'',
       metadata = [(''source'', VStr ''/a''), (''title'', VStr ''Assets''), (''tags'', VList [])]\<rparr>,
      \<lparr>page_content = ''Ops'',
       metadata = [(''depth'', VInt 2), (''source'', VStr (''/caf'' @ [CHR 0xE9])),
                   (''parent'', VNone)]\<rparr>]"

definition example_pages_again :: "document list" where
  "example_pages_again =
     [\<lparr>page_content = ''Ops, revised'',
       metadata = [(''source'', VStr (''/caf'' @ [CHR 0xE9]))]\<rparr>]"

section \<open>Properties of the sanitization\<close>

lemma dict_setitem_fresh:
  "k \<notin> fst ` set d \<Longrightarrow> dict_setitem d k v = d @ [(k, v)]"
  by (induction d) (auto split: if_splits)

lemma dict_setitem_keys:
  "map fst (dict_setitem d k v) = (if k \<in> fst ` set d then map fst d else map fst d @ [k])"
  by (induction d) (auto split: if_splits)

lemma dict_setitem_values:
  "set (dict_setitem d k v) \<subseteq> insert (k, v) (set d)"
  by (induction d) (auto split: if_splits)

lemma foldl_sanitize_step_distinct:
  "distinct (map fst m) \<Longrightarrow> fst ` set acc \<inter> fst ` set m = {} \<Longrightarrow>
   foldl sanitize_step acc m = acc @ filter (\<lambda>kv. isinstance_primitive (snd kv)) m"
proof (induction m arbitrary: acc)
  case Nil
  then show ?case by simp
next
  case (Cons kv m)
  obtain k v where kv: "kv = (k, v)" by (cases kv)
  show ?case
  proof (cases "isinstance_primitive v")
    case True
    from Cons.prems kv have fresh: "k \<notin> fst ` set acc" by auto
    have step: "sanitize_step acc kv = acc @ [(k, v)]"
      using True fresh by (simp add: sanitize_step_def kv dict_setitem_fresh)
    have disj: "fst ` set (acc @ [(k, v)]) \<inter> fst ` set m = {}"
      using Cons.prems kv by auto
    have "foldl sanitize_step (acc @ [(k, v)]) m =
          (acc @ [(k, v)]) @ filter (\<lambda>kv. isinstance_primitive (snd kv)) m"
      using Cons.IH [OF _ disj] Cons.prems(1) by simp
    then show ?thesis using True step kv by simp
  next
    case False
    have step: "sanitize_step acc kv = acc"
      using False by (simp add: sanitize_step_def kv)
    have disj: "fst ` set acc \<inter> fst ` set m = {}"
      using Cons.prems by auto
    show ?thesis
      using Cons.IH [OF _ disj] Cons.prems(1) False step kv by simp
  qed
qed

lemma sanitize_filter:
  "wf_dict m \<Longrightarrow> sanitize m = filter (\<lambda>kv. isinstance_primitive (snd kv)) m"
  using foldl_sanitize_step_distinct [of m "[]"] by (simp add: sanitize_def wf_dict_def)

lemma foldl_sanitize_step_wf:
  "distinct (map fst acc) \<Longrightarrow> distinct (map fst (foldl sanitize_step acc m))"
  by (induction m arbitrary: acc) (auto simp: sanitize_step_def dict_setitem_keys)

lemma foldl_sanitize_step_primitive:
  "\<forall>kv \<in> set acc. isinstance_primitive (snd kv) \<Longrightarrow>
   \<forall>kv \<in> set (foldl sanitize_step acc m). isinstance_primitive (snd kv)"
proof (induction m arbitrary: acc)
  case Nil
  then show ?case by simp
next
  case (Cons kv m)
  have "\<forall>x \<in> set (sanitize_step acc kv). isinstance_primitive (snd x)"
    using Cons.prems dict_setitem_values [of acc "fst kv" "snd kv"]
    by (auto simp: sanitize_step_def)
  then show ?case using Cons.IH by simp
qed

lemma sanitize_wf: "wf_dict (sanitize m)"
  using foldl_sanitize_step_wf [of "[]" m] by (simp add: sanitize_def wf_dict_def)

lemma sanitize_primitive: "\<forall>kv \<in> set (sanitize m). isinstance_primitive (snd kv)"
  using foldl_sanitize_step_primitive [of "[]" m] by (simp add: sanitize_def)

section \<open>Runs of the assets\<close>

lemma io_bind_Inr:
  "io_bind m f = (t, Inr b) \<longleftrightarrow>
   (\<exists>t1 a t2. m = (t1, Inr a) \<and> f a = (t2, Inr b) \<and> t = t1 @ t2)"
  by (cases m; cases "snd m") (auto simp: io_bind_def split: prod.splits sum.splits)

lemma io_call_Inr: "io_call ev r = (t, Inr a) \<longleftrightarrow> t = [ev] \<and> r = Inr a"
  by (auto simp: io_call_def)

lemma io_return_Inr: "io_return a = (t, Inr b) \<longleftrightarrow> t = [] \<and> b = a"
  by (auto simp: io_return_def)

lemma github_issues_embeddings_run:
  assumes "github_issues_embeddings openai pinecone docs = (t, Inr res)"
  shows "\<exists>index kw embeddings.
           embeddings_create openai model_name (map page_content docs) = Inr embeddings
         \<and> t = [CreateIndex ''dagster-knowledge'' 1536,
                GetIndex ''dagster-knowledge'' ''dagster-github'',
                EmbeddingsCreate model_name (map page_content docs),
                Upsert index
                  (zip3 (map str_int (range_list (length docs))) embeddings
                     (map (\<lambda>doc. sanitize (metadata doc)) docs)) kw]
         \<and> res = [(''number_of_issues'', VInt (int (length docs)))]"
  using assms
  by (auto simp: github_issues_embeddings_def Let_def io_bind_Inr io_call_Inr io_return_Inr split_def)

lemma chunks_nonempty:
  "xs \<noteq> [] \<Longrightarrow> 0 < b \<Longrightarrow> chunks b xs = take b xs # chunks b (drop b xs)"
  by (cases xs) (simp_all add: chunks.simps(2))

lemma chunks_zero: "chunks 0 xs = []"
  by (cases xs) (simp_all add: chunks.simps(2))

lemma concat_chunks: "0 < b \<Longrightarrow> concat (chunks b xs) = xs"
proof (induction b xs rule: chunks.induct)
  case (1 b)
  then show ?case by simp
next
  case (2 b x xs)
  then show ?case by (simp add: chunks.simps(2) del: take_Suc_Cons drop_Suc_Cons)
qed


lemma length_chunks: "0 < b \<Longrightarrow> length (chunks b xs) = ceil_div (length xs) b"
proof (induction b xs rule: chunks.induct)
  case (1 b)
  then show ?case by (simp add: ceil_div_def)
next
  case (2 b x xs)
  let ?n = "length (x # xs)"
  have n: "0 < ?n" by simp
  have len: "length (chunks b (x # xs)) = Suc (ceil_div (?n - b) b)"
    using 2 by (simp add: chunks.simps(2) del: drop_Suc_Cons)
  show ?case
  proof (cases "?n \<le> b")
    case True
    then have "(?n + b - 1) div b = 1"
      using n "2.prems" by (intro div_nat_eqI) auto
    moreover have "(?n - b + b - 1) div b = 0" using True "2.prems" by simp
    ultimately show ?thesis using len by (simp add: ceil_div_def)
  next
    case False
    then have "?n + b - 1 = (?n - b + b - 1) + b" by simp
    then have "(?n + b - 1) div b = Suc ((?n - b + b - 1) div b)"
      using "2.prems" by (metis Suc_eq_plus1 div_add_self2 less_numeral_extra(3))
    then show ?thesis using len by (simp add: ceil_div_def)
  qed
qed


lemma chunks_drop:
  "0 < b \<Longrightarrow> i < length xs \<Longrightarrow>
   chunks b (drop i xs) = take b (drop i xs) # chunks b (drop (i + b) xs)"
  by (simp add: chunks_nonempty add.commute)

lemma chunks_drop_all: "length xs \<le> i \<Longrightarrow> chunks b (drop i xs) = []"
  by simp

lemma embed_batches_Inr:
  "embed_batches openai b texts i acc = (t, Inr vs) \<Longrightarrow> 0 < b \<Longrightarrow>
   \<exists>answers.
      list_all2 (\<lambda>c a. embeddings_create openai model_name c = Inr a)
        (chunks b (drop i texts)) answers
    \<and> vs = acc @ concat answers
    \<and> t = concat (map call_and_pause (chunks b (drop i texts)))"
proof (induction openai b texts i acc arbitrary: t vs rule: embed_batches.induct)
  case (1 openai b texts i acc)
  show ?case
  proof (cases "i < length texts")
    case False
    with "1.prems" show ?thesis
      by (simp add: embed_batches.simps [of openai b texts i acc])
  next
    case True
    let ?c = "take b (drop i texts)"
    from "1.prems" True obtain a t' where
      a: "embeddings_create openai model_name ?c = Inr a" and
      rec: "embed_batches openai b texts (i + b) (acc @ a) = (t', Inr vs)" and
      t: "t = EmbeddingsCreate model_name ?c # Sleep 1000 # t'"
      by (auto simp: embed_batches.simps [of openai b texts i acc] Let_def
               split: sum.splits prod.splits)
    from "1.IH" [OF _ refl a rec] True "1.prems"(2) obtain answers where
      all: "list_all2 (\<lambda>c a. embeddings_create openai model_name c = Inr a)
              (chunks b (drop (i + b) texts)) answers" and
      vs: "vs = (acc @ a) @ concat answers" and
      t': "t' = concat (map call_and_pause (chunks b (drop (i + b) texts)))"
      by auto
    have "list_all2 (\<lambda>c a. embeddings_create openai model_name c = Inr a)
            (chunks b (drop i texts)) (a # answers)"
      using all a True "1.prems"(2) by (simp add: chunks_drop)
    moreover have "vs = acc @ concat (a # answers)" using vs by simp
    moreover have "t = concat (map call_and_pause (chunks b (drop i texts)))"
      using t t' True "1.prems"(2) by (simp add: chunks_drop call_and_pause_def)
    ultimately show ?thesis by blast
  qed
qed

lemma github_discussions_embeddings_run:
  assumes "github_discussions_embeddings openai pinecone docs = (t, Inr res)"
  shows "\<exists>index kw tb embeddings.
           embed_batches openai BATCH_SIZE (map page_content docs) 0 [] = (tb, Inr embeddings)
         \<and> t = [CreateIndex ''dagster-knowledge'' 1536,
                GetIndex ''dagster-knowledge'' ''dagster-github''] @ tb @
               [Upsert index
                  (zip3 (map str_int (range_list (length docs))) embeddings
                     (map (\<lambda>doc. sanitize (metadata doc)) docs)) kw]
         \<and> res = [(''number_of_discussions'', VInt (int (length docs)))]"
  using assms
  by (auto simp: github_discussions_embeddings_def Let_def io_bind_Inr io_call_Inr io_return_Inr split_def)

lemma docs_embedding_run:
  assumes "docs_embedding md5 pinecone openai docs = (t, Inr res)"
  shows "\<exists>index kw embeddings metadatas doc_ids urls.
           embeddings_create openai model_name (map page_content docs) = Inr embeddings
         \<and> docs_loop md5 docs [] [] = Inr (metadatas, doc_ids)
         \<and> urls_processed docs = Inr urls
         \<and> t = [CreateIndex ''dagster-knowledge'' 1536,
                GetIndex ''dagster-knowledge'' ''dagster-docs'',
                EmbeddingsCreate model_name (map page_content docs),
                Upsert index (zip3 doc_ids embeddings metadatas) kw]
         \<and> res = [(''documents_embedded'', VInt (int (length docs))),
                  (''embedding_dimension'', VInt (embedding_dimension embeddings)),
                  (''urls_processed'', VList urls)]"
  using assms
  by (auto simp: docs_embedding_def Let_def io_bind_Inr io_call_Inr io_return_Inr split_def)

lemma docs_loop_Inr:
  "docs_loop md5 docs metadatas doc_ids = Inr (metadatas', doc_ids') \<longleftrightarrow>
     list_all (\<lambda>doc. source_url doc \<noteq> None) docs
   \<and> metadatas' = metadatas @ map (\<lambda>doc. sanitize (metadata doc)) docs
   \<and> doc_ids' = doc_ids @ map (\<lambda>doc. doc_id md5 (the (source_url doc))) docs"
proof (induction docs arbitrary: metadatas doc_ids)
  case Nil
  then show ?case by auto
next
  case (Cons doc docs)
  show ?case
  proof (cases "source_url doc")
    case None
    then have "docs_loop md5 (doc # docs) metadatas doc_ids \<noteq> Inr (metadatas', doc_ids')"
      by (auto simp: source_url_def dict_getitem_def py_encode_def
               split: option.splits pyval.splits)
    with None show ?thesis by simp
  next
    case (Some url)
    then have src: "map_of (metadata doc) ''source'' = Some (VStr url)"
      by (auto simp: source_url_def split: option.splits pyval.splits)
    have "docs_loop md5 (doc # docs) metadatas doc_ids =
          docs_loop md5 docs (metadatas @ [sanitize (metadata doc)]) (doc_ids @ [doc_id md5 url])"
      using src by (simp add: dict_getitem_def py_encode_def doc_id_def)
    then show ?thesis using Some Cons.IH by simp
  qed
qed

lemma scrape_loop_Inr:
  "scrape_loop scraper urls documents = (t, Inr ds) \<Longrightarrow>
   \<exists>answers.
      list_all2 (\<lambda>url a. scrape_page scraper url = Inr a) urls answers
    \<and> ds = documents @ List.map_filter (\<lambda>a. a) answers
    \<and> t = concat (map (\<lambda>url. [ScrapePage url, Sleep 500]) urls)"
proof (induction urls arbitrary: documents t)
  case Nil
  then show ?case by (simp add: List.map_filter_simps)
next
  case (Cons url urls)
  from Cons.prems obtain a t' where
    a: "scrape_page scraper url = Inr a" and
    rec: "scrape_loop scraper urls (case a of None \<Rightarrow> documents | Some d \<Rightarrow> documents @ [d]) = (t', Inr ds)" and
    t: "t = ScrapePage url # Sleep 500 # t'"
    by (auto split: sum.splits prod.splits)
  from Cons.IH [OF rec] obtain answers where
    all: "list_all2 (\<lambda>url a. scrape_page scraper url = Inr a) urls answers" and
    ds: "ds = (case a of None \<Rightarrow> documents | Some d \<Rightarrow> documents @ [d]) @ List.map_filter (\<lambda>a. a) answers" and
    t': "t' = concat (map (\<lambda>url. [ScrapePage url, Sleep 500]) urls)"
    by auto
  have "list_all2 (\<lambda>url a. scrape_page scraper url = Inr a) (url # urls) (a # answers)"
    using a all by simp
  moreover have "ds = documents @ List.map_filter (\<lambda>a. a) (a # answers)"
    using ds by (cases a) (simp_all add: List.map_filter_simps)
  moreover have "t = concat (map (\<lambda>url. [ScrapePage url, Sleep 500]) (url # urls))"
    using t t' by simp
  ultimately show ?case by blast
qed

lemma completes_iff: "completes run \<longleftrightarrow> (\<exists>t res. run = (t, Inr res))"
  by (cases run; cases "snd run") (auto simp: completes_def)

lemma embedding_calls_append [simp]:
  "embedding_calls (t @ t') = embedding_calls t @ embedding_calls t'"
  by (induction t rule: embedding_calls.induct) simp_all

lemma upserts_append [simp]: "upserts (t @ t') = upserts t @ upserts t'"
  by (induction t rule: upserts.induct) simp_all

lemma embedding_calls_rounds [simp]:
  "embedding_calls (concat (map call_and_pause cs)) = cs"
  by (induction cs) (simp_all add: call_and_pause_def)

lemma upserts_rounds [simp]: "upserts (concat (map call_and_pause cs)) = []"
  by (induction cs) (simp_all add: call_and_pause_def)

lemma returned_vectors_answers:
  "list_all2 (\<lambda>c a. embeddings_create openai model_name c = Inr a) cs answers \<Longrightarrow>
   returned_vectors openai cs = concat answers"
  unfolding returned_vectors_def
  by (induction cs answers rule: list_all2_induct) simp_all

lemma run_asset_completes:
  assumes "completes (run_asset a md5 openai pinecone docs)"
  shows "\<exists>ids.
       upserts (trace (run_asset a md5 openai pinecone docs)) =
         [zip3 ids (returned_vectors openai (embedding_calls (trace (run_asset a md5 openai pinecone docs))))
            (map (\<lambda>doc. sanitize (metadata doc)) docs)]
     \<and> list_all2 (\<lambda>id (i, doc). assigned_id a md5 i doc = Some id) ids (enumerate 0 docs)
     \<and> embedding_calls (trace (run_asset a md5 openai pinecone docs)) =
         (case a of GithubDiscussions \<Rightarrow> chunks BATCH_SIZE (map page_content docs)
                  | _ \<Rightarrow> [map page_content docs])
     \<and> list_all (\<lambda>c. \<exists>vs. embeddings_create openai model_name c = Inr vs)
         (embedding_calls (trace (run_asset a md5 openai pinecone docs)))"
proof -
  let ?run = "run_asset a md5 openai pinecone docs"
  let ?texts = "map page_content docs"
  let ?metas = "map (\<lambda>doc. sanitize (metadata doc)) docs"
  let ?seq = "map str_int (range_list (length docs))"
  from assms obtain t res where run: "?run = (t, Inr res)"
    by (auto simp: completes_iff)
  then have tr: "trace ?run = t" by (simp add: trace_def)
  have seq: "list_all2 (\<lambda>id (i, doc). assigned_id a md5 i doc = Some id) ?seq (enumerate 0 docs)"
    if "a \<noteq> Docs"
    using that
    by (cases a) (auto simp: list_all2_conv_all_nth nth_enumerate_eq assigned_id_def range_list_def)
  show ?thesis
  proof (cases a)
    case GithubIssues
    with run have "github_issues_embeddings openai pinecone docs = (t, Inr res)"
      by (simp add: run_asset_def)
    from github_issues_embeddings_run [OF this] obtain index kw embeddings where
      e: "embeddings_create openai model_name ?texts = Inr embeddings" and
      t: "t = [CreateIndex ''dagster-knowledge'' 1536,
               GetIndex ''dagster-knowledge'' ''dagster-github'',
               EmbeddingsCreate model_name ?texts,
               Upsert index (zip3 ?seq embeddings ?metas) kw]"
      by blast
    have "upserts t = [zip3 ?seq (returned_vectors openai (embedding_calls t)) ?metas]"
      using e t by (simp add: returned_vectors_def)
    moreover have "embedding_calls t = [?texts]" using t by simp
    ultimately show ?thesis
      unfolding tr using seq e GithubIssues by (intro exI [of _ ?seq]) simp
  next
    case GithubDiscussions
    with run have "github_discussions_embeddings openai pinecone docs = (t, Inr res)"
      by (simp add: run_asset_def)
    from github_discussions_embeddings_run [OF this] obtain index kw tb embeddings where
      b: "embed_batches openai BATCH_SIZE ?texts 0 [] = (tb, Inr embeddings)" and
      t: "t = [CreateIndex ''dagster-knowledge'' 1536,
               GetIndex ''dagster-knowledge'' ''dagster-github''] @ tb @
              [Upsert index (zip3 ?seq embeddings ?metas) kw]"
      by blast
    from embed_batches_Inr [OF b] obtain answers where
      all: "list_all2 (\<lambda>c a. embeddings_create openai model_name c = Inr a)
              (chunks BATCH_SIZE ?texts) answers" and
      emb: "embeddings = concat answers" and
      tb: "tb = concat (map call_and_pause (chunks BATCH_SIZE ?texts))"
      by (auto simp: BATCH_SIZE_def)
    have calls: "embedding_calls t = chunks BATCH_SIZE ?texts" using t tb by simp
    have "upserts t = [zip3 ?seq (returned_vectors openai (embedding_calls t)) ?metas]"
      using t tb emb returned_vectors_answers [OF all] calls by simp
    moreover have "list_all (\<lambda>c. \<exists>vs. embeddings_create openai model_name c = Inr vs)
                     (chunks BATCH_SIZE ?texts)"
      using all by (auto simp: list_all_iff list_all2_conv_all_nth in_set_conv_nth)
    ultimately show ?thesis
      unfolding tr using seq calls GithubDiscussions by (intro exI [of _ ?seq]) simp
  next
    case Docs
    with run have "docs_embedding md5 pinecone openai docs = (t, Inr res)"
      by (simp add: run_asset_def)
    from docs_embedding_run [OF this] obtain index kw embeddings metadatas doc_ids where
      e: "embeddings_create openai model_name ?texts = Inr embeddings" and
      l: "docs_loop md5 docs [] [] = Inr (metadatas, doc_ids)" and
      t: "t = [CreateIndex ''dagster-knowledge'' 1536,
               GetIndex ''dagster-knowledge'' ''dagster-docs'',
               EmbeddingsCreate model_name ?texts,
               Upsert index (zip3 doc_ids embeddings metadatas) kw]"
      by blast
    from l have src: "list_all (\<lambda>doc. source_url doc \<noteq> None) docs" and
      metas: "metadatas = ?metas" and
      ids: "doc_ids = map (\<lambda>doc. doc_id md5 (the (source_url doc))) docs"
      by (simp_all add: docs_loop_Inr)
    have "upserts t = [zip3 doc_ids (returned_vectors openai (embedding_calls t)) ?metas]"
      using e t metas by (simp add: returned_vectors_def)
    moreover have "embedding_calls t = [?texts]" using t by simp
    moreover have "list_all2 (\<lambda>id (i, doc). assigned_id Docs md5 i doc = Some id)
                     doc_ids (enumerate 0 docs)"
      using src ids
      by (auto simp: list_all2_conv_all_nth nth_enumerate_eq assigned_id_def list_all_length)
    ultimately show ?thesis
      unfolding tr using e Docs by (intro exI [of _ doc_ids]) simp
  qed
qed

lemma returned_vectors_related:
  assumes "one_vector_per_text R openai"
      and "list_all (\<lambda>c. \<exists>vs. embeddings_create openai model_name c = Inr vs) calls"
  shows "list_all2 R (concat calls) (returned_vectors openai calls)"
  using assms(2)
proof (induction calls)
  case Nil
  then show ?case by (simp add: returned_vectors_def)
next
  case (Cons c calls)
  then obtain vs where vs: "embeddings_create openai model_name c = Inr vs" by auto
  with assms(1) have "list_all2 R c vs" by (simp add: one_vector_per_text_def)
  moreover have "list_all2 R (concat calls) (returned_vectors openai calls)"
    using Cons by simp
  ultimately show ?case
    using vs by (simp add: returned_vectors_def list_all2_appendI)
qed



lemma embed_batches_pauses: "pauses_follow_calls (fst (embed_batches openai b texts i acc))"
proof (induction openai b texts i acc rule: embed_batches.induct)
  case (1 openai b texts i acc)
  show ?case
  proof (cases "0 < b \<and> i < length texts")
    case False
    then show ?thesis by (auto simp: embed_batches.simps [of openai b texts i acc])
  next
    case True
    show ?thesis
    proof (cases "embeddings_create openai model_name (take b (drop i texts))")
      case (Inl e)
      with True show ?thesis by (simp add: embed_batches.simps [of openai b texts i acc])
    next
      case (Inr a)
      with True "1.IH" [OF True refl Inr] show ?thesis
        by (auto simp: embed_batches.simps [of openai b texts i acc] split: prod.splits)
    qed
  qed
qed

lemma pauses_follow_calls_rounds:
  "pauses_follow_calls (concat (map call_and_pause cs) @ t) = pauses_follow_calls t"
  by (induction cs) (simp_all add: call_and_pause_def)

lemma pauses_rounds:
  "pauses (concat (map call_and_pause cs)) = replicate (length cs) (Sleep 1000)"
  by (induction cs) (simp_all add: call_and_pause_def pauses_def)

lemma github_discussions_embeddings_trace:
  "\<exists>tb r. embed_batches openai BATCH_SIZE (map page_content docs) 0 [] = (tb, r) \<and>
     (trace (github_discussions_embeddings openai pinecone docs) = [CreateIndex ''dagster-knowledge'' 1536]
    \<or> trace (github_discussions_embeddings openai pinecone docs) =
         [CreateIndex ''dagster-knowledge'' 1536, GetIndex ''dagster-knowledge'' ''dagster-github'']
    \<or> trace (github_discussions_embeddings openai pinecone docs) =
         [CreateIndex ''dagster-knowledge'' 1536, GetIndex ''dagster-knowledge'' ''dagster-github''] @ tb
    \<or> (\<exists>e index vectors kw. r = Inr e \<and> trace (github_discussions_embeddings openai pinecone docs) =
         [CreateIndex ''dagster-knowledge'' 1536, GetIndex ''dagster-knowledge'' ''dagster-github''] @ tb @
         [Upsert index vectors kw]))"
  by (cases "embed_batches openai BATCH_SIZE (map page_content docs) 0 []")
     (auto simp: github_discussions_embeddings_def trace_def io_bind_def io_call_def io_return_def
        Let_def split: sum.splits prod.splits)

lemma embed_batches_empty: "embed_batches openai b [] i acc = ([], Inr acc)"
  by (simp add: embed_batches.simps [of openai b "[]" i acc])

lemma github_discussions_embeddings_empty_calls:
  "embedding_calls (trace (github_discussions_embeddings openai pinecone [])) = []"
  by (simp add: github_discussions_embeddings_def trace_def io_bind_def io_call_def io_return_def
        embed_batches_empty Let_def split: sum.splits prod.splits)

lemma embed_batches_returns:
  "openai_returns openai \<Longrightarrow> \<exists>t vs. embed_batches openai b texts i acc = (t, Inr vs)"
proof (induction openai b texts i acc rule: embed_batches.induct)
  case (1 openai b texts i acc)
  show ?case
  proof (cases "0 < b \<and> i < length texts")
    case False
    then show ?thesis by (auto simp: embed_batches.simps [of openai b texts i acc])
  next
    case True
    from "1.prems" obtain a where
      a: "embeddings_create openai model_name (take b (drop i texts)) = Inr a"
      unfolding openai_returns_def by blast
    from "1.IH" [OF True refl a "1.prems"] obtain t vs where
      "embed_batches openai b texts (i + b) (acc @ a) = (t, Inr vs)" by blast
    with True a show ?thesis
      by (auto simp: embed_batches.simps [of openai b texts i acc])
  qed
qed

lemma urls_processed_returns:
  "list_all (\<lambda>doc. source_url doc \<noteq> None) docs \<Longrightarrow> \<exists>urls. urls_processed docs = Inr urls"
proof (induction docs)
  case Nil
  then show ?case by simp
next
  case (Cons doc docs)
  then obtain urls where "urls_processed docs = Inr urls" by auto
  moreover from Cons.prems obtain v where "map_of (metadata doc) ''source'' = Some v"
    by (auto simp: source_url_def split: option.splits)
  ultimately show ?case by (simp add: dict_getitem_def)
qed

lemma run_asset_returns:
  assumes o: "openai_returns openai" and p: "pinecone_returns pinecone"
      and s: "a = Docs \<longrightarrow> list_all (\<lambda>doc. source_url doc \<noteq> None) docs"
  shows "completes (run_asset a md5 openai pinecone docs)"
proof -
  from p obtain index kw where
    c: "\<And>name dimension. create_index pinecone name dimension = Inr ()" and
    u: "\<And>index vectors kw. index_upsert pinecone index vectors kw = Inr ()" and
    g: "get_index pinecone ''dagster-knowledge''
          (case a of Docs \<Rightarrow> ''dagster-docs'' | _ \<Rightarrow> ''dagster-github'') = Inr (index, kw)"
    unfolding pinecone_returns_def by blast
  from o obtain vs where vs: "embeddings_create openai model_name (map page_content docs) = Inr vs"
    unfolding openai_returns_def by blast
  show ?thesis
  proof (cases a)
    case GithubIssues
    with c u g vs show ?thesis
      by (simp add: run_asset_def github_issues_embeddings_def completes_def io_bind_def
            io_call_def io_return_def Let_def)
  next
    case GithubDiscussions
    from embed_batches_returns [OF o] obtain t es where
      "embed_batches openai BATCH_SIZE (map page_content docs) 0 [] = (t, Inr es)" by blast
    with GithubDiscussions c u g show ?thesis
      by (simp add: run_asset_def github_discussions_embeddings_def completes_def io_bind_def
            io_call_def io_return_def Let_def)
  next
    case Docs
    with s have src: "list_all (\<lambda>doc. source_url doc \<noteq> None) docs" by simp
    then obtain urls where urls: "urls_processed docs = Inr urls"
      using urls_processed_returns by blast
    from src have "docs_loop md5 docs [] [] =
        Inr (map (\<lambda>doc. sanitize (metadata doc)) docs,
             map (\<lambda>doc. doc_id md5 (the (source_url doc))) docs)"
      by (simp add: docs_loop_Inr)
    with Docs c u g vs urls show ?thesis
      by (simp add: run_asset_def docs_embedding_def completes_def io_bind_def
            io_call_def io_return_def Let_def)
  qed
qed

lemma digit_cases:
  "d < 10 \<Longrightarrow> d = 0 \<or> d = 1 \<or> d = 2 \<or> d = 3 \<or> d = 4 \<or> d = 5 \<or> d = 6 \<or> d = 7 \<or> d = 8 \<or> d = (9::nat)"
  by arith

lemma digit_char_props:
  assumes "d < 10"
  shows "digit_value (digit_char d) = d"
    and "digit_char d \<in> set ''0123456789''"
    and "digit_char d = CHR ''0'' \<longleftrightarrow> d = 0"
  using digit_cases [OF assms]
  by (auto simp: digit_char_def digit_value_def)

lemma str_nat_nonempty: "str_nat n \<noteq> []"
  by (subst str_nat.simps) simp

lemma str_nat_digits: "set (str_nat n) \<subseteq> set ''0123456789''"
proof (induction n rule: str_nat.induct)
  case (1 n)
  show ?case
  proof (cases "n < 10")
    case True
    then show ?thesis
      using digit_char_props(2) [of n] by (subst str_nat.simps) simp
  next
    case False
    then have "n mod 10 < 10" by simp
    with False "1.IH" digit_char_props(2) [of "n mod 10"] show ?thesis
      by (subst str_nat.simps) simp
  qed
qed

lemma decimal_value_str_nat: "decimal_value (str_nat n) = n"
proof (induction n rule: str_nat.induct)
  case (1 n)
  show ?case
  proof (cases "n < 10")
    case True
    then show ?thesis
      using digit_char_props(1) [of n]
      by (subst str_nat.simps) (simp add: decimal_value_def)
  next
    case False
    have "decimal_value (str_nat (n div 10) @ [digit_char (n mod 10)]) =
          10 * decimal_value (str_nat (n div 10)) + digit_value (digit_char (n mod 10))"
      by (simp add: decimal_value_def)
    also have "\<dots> = 10 * (n div 10) + n mod 10"
      using "1.IH" False digit_char_props(1) [of "n mod 10"] by simp
    finally show ?thesis using False by (subst str_nat.simps) simp
  qed
qed

lemma str_nat_leading_zero: "hd (str_nat n) = CHR ''0'' \<Longrightarrow> n = 0"
proof (induction n rule: str_nat.induct)
  case (1 n)
  show ?case
  proof (cases "n < 10")
    case True
    with "1.prems" digit_char_props(3) [of n] show ?thesis
      by (subst (asm) str_nat.simps) simp
  next
    case False
    with "1.prems" have "hd (str_nat (n div 10)) = CHR ''0''"
      by (subst (asm) str_nat.simps) (simp add: str_nat_nonempty)
    with "1.IH" False have "n div 10 = 0" by simp
    with False show ?thesis by simp
  qed
qed

lemma hex_digits_nth_inj:
  "i < 16 \<Longrightarrow> j < 16 \<Longrightarrow> hex_digits ! i = hex_digits ! j \<longleftrightarrow> i = j"
proof -
  have "distinct hex_digits" "length hex_digits = 16"
    by (simp_all add: hex_digits_def)
  then show "i < 16 \<Longrightarrow> j < 16 \<Longrightarrow> hex_digits ! i = hex_digits ! j \<longleftrightarrow> i = j"
    by (simp add: nth_eq_iff_index_eq)
qed

lemma unat_byte_div: "unat (b :: 8 word) div 16 < 16"
proof -
  have "unat b < 256" using unsigned_less [of b] by simp
  then show ?thesis by simp
qed

lemma hex_byte_inj: "hex_byte a = hex_byte b \<Longrightarrow> a = b"
proof -
  assume "hex_byte a = hex_byte b"
  then have "unat a div 16 = unat b div 16" "unat a mod 16 = unat b mod 16"
    by (simp_all add: hex_byte_def hex_digits_nth_inj unat_byte_div)
  then have "unat a = unat b"
    by (metis div_mult_mod_eq)
  then show "a = b" by (simp add: word_unat_eq_iff)
qed

lemma hexdigest_inj: "hexdigest a = hexdigest b \<Longrightarrow> a = b"
proof (induction a arbitrary: b)
  case Nil
  then show ?case by (cases b) (simp_all add: hexdigest_def hex_byte_def)
next
  case (Cons x a)
  then obtain y b' where b: "b = y # b'"
    by (cases b) (simp_all add: hexdigest_def hex_byte_def)
  from Cons.prems b have "hex_byte x @ hexdigest a = hex_byte y @ hexdigest b'"
    by (simp add: hexdigest_def)
  moreover have "length (hex_byte x) = length (hex_byte y)" by (simp add: hex_byte_def)
  ultimately have "hex_byte x = hex_byte y" "hexdigest a = hexdigest b'" by simp_all
  with Cons.IH b show ?case by (simp add: hex_byte_inj)
qed

lemma hexdigest_lowercase: "set (hexdigest bs) \<subseteq> set hex_digits"
proof -
  have "hex_digits ! i \<in> set hex_digits" if "i < 16" for i
    using that by (intro nth_mem) (simp add: hex_digits_def)
  then have "set (hex_byte b) \<subseteq> set hex_digits" for b
    using unat_byte_div [of b] by (simp add: hex_byte_def)
  then show ?thesis by (auto simp: hexdigest_def)
qed

lemma length_hexdigest: "length (hexdigest bs) = 2 * length bs"
  by (induction bs) (simp_all add: hexdigest_def hex_byte_def)

lemma store_upsert_snoc:
  "store_upsert s (rs @ [(i, v, m)]) = (store_upsert s rs)(i \<mapsto> (v, m))"
  by (simp add: store_upsert_def)

lemma scrape_calls_rounds [simp]:
  "scrape_calls (concat (map (\<lambda>url. [ScrapePage url, Sleep 500]) urls)) = urls"
  by (induction urls) simp_all

lemma output_metadata_rounds [simp]:
  "output_metadata (concat (map (\<lambda>url. [ScrapePage url, Sleep 500]) urls)) = []"
  by (induction urls) simp_all

lemma scrape_calls_append [simp]: "scrape_calls (t @ t') = scrape_calls t @ scrape_calls t'"
  by (induction t rule: scrape_calls.induct) simp_all

lemma output_metadata_append [simp]:
  "output_metadata (t @ t') = output_metadata t @ output_metadata t'"
  by (induction t rule: output_metadata.induct) simp_all

lemma docs_scrape_raw_run:
  assumes "docs_scrape_raw scraper = (t, Inr documents)"
  shows "\<exists>sitemap answers.
           parse_sitemap scraper = Inr sitemap
         \<and> list_all2 (\<lambda>url a. scrape_page scraper url = Inr a) (take 4 sitemap) answers
         \<and> documents = List.map_filter (\<lambda>a. a) answers
         \<and> t = [ParseSitemap] @ concat (map (\<lambda>url. [ScrapePage url, Sleep 500]) (take 4 sitemap))
               @ [AddOutputMetadata [(''pages scraped'', VInt (int (length (take 4 sitemap))))]]"
proof -
  from assms obtain sitemap tl where
    s: "parse_sitemap scraper = Inr sitemap" and
    l: "scrape_loop scraper (take 4 sitemap) [] = (tl, Inr documents)" and
    t: "t = [ParseSitemap] @ tl
          @ [AddOutputMetadata [(''pages scraped'', VInt (int (length (take 4 sitemap))))]]"
    by (auto simp: docs_scrape_raw_def Let_def io_bind_Inr io_call_Inr io_return_Inr)
  from scrape_loop_Inr [OF l] s t show ?thesis by auto
qed

lemma length_map_filter_le: "length (List.map_filter f xs) \<le> length xs"
  by (induction xs) (simp_all add: List.map_filter_simps split: option.splits)

lemma unat_encode_char:
  "map unat (encode_char c) =
     (if (of_char c :: nat) < 128 then [of_char c]
      else [192 + of_char c div 64, 128 + of_char c mod 64])"
proof -
  let ?n = "of_char c :: nat"
  have n: "?n < 256" by simp
  then have "?n div 64 < 4" by (simp add: div_less_iff_less_mult)
  then have hi: "192 + ?n div 64 < 256" by simp
  have lo: "128 + ?n mod 64 < 256"
    using mod_less_divisor [of 64 ?n] by simp
  have byte: "unat (of_nat m :: 8 word) = m" if "m < 256" for m
    using that by (simp add: unat_of_nat)
  show ?thesis
    using byte [OF n] byte [OF hi] byte [OF lo] by (simp add: encode_char_def Let_def)
qed

lemma encode_char_prefix_free:
  assumes "encode_char c @ r = encode_char c' @ r'"
  shows "c = c' \<and> r = r'"
proof -
  let ?n = "of_char c :: nat" and ?n' = "of_char c' :: nat"
  from assms have
    eq: "map unat (encode_char c) @ map unat r = map unat (encode_char c') @ map unat r'"
    by (metis map_append)
  have "?n = ?n'"
  proof (cases "?n < 128")
    case short: True
    show ?thesis
    proof (cases "?n' < 128")
      case True
      with short eq show ?thesis by (simp add: unat_encode_char)
    next
      case False
      with short eq show ?thesis by (simp add: unat_encode_char)
    qed
  next
    case long: False
    show ?thesis
    proof (cases "?n' < 128")
      case True
      with long eq show ?thesis by (simp add: unat_encode_char)
    next
      case False
      with long eq have "?n div 64 = ?n' div 64" "?n mod 64 = ?n' mod 64"
        by (simp_all add: unat_encode_char)
      then show ?thesis by (metis div_mult_mod_eq)
    qed
  qed
  then have c: "c = c'" by simp
  with assms show ?thesis by simp
qed

lemma encode_char_nonempty: "encode_char c \<noteq> []"
  by (simp add: encode_char_def Let_def)

lemma encode_inj: "encode s = encode s' \<Longrightarrow> s = s'"
proof (induction s arbitrary: s')
  case Nil
  then show ?case
    by (cases s') (simp_all add: encode_def encode_char_nonempty)
next
  case (Cons c s)
  show ?case
  proof (cases s')
    case Nil
    with Cons.prems show ?thesis by (simp add: encode_def encode_char_nonempty)
  next
    case (Cons c' t)
    with Cons.prems have "encode_char c @ encode s = encode_char c' @ encode t"
      by (simp add: encode_def)
    from encode_char_prefix_free [OF this] Cons.IH Cons show ?thesis by simp
  qed
qed

lemma doc_id_eq_iff:
  "doc_id md5 url = doc_id md5 url' \<longleftrightarrow> url = url' \<or> md5_collision md5 url url'"
  using hexdigest_inj encode_inj by (auto simp: doc_id_def md5_collision_def)

lemma length_hashlib_md5: "length (hashlib_md5 bytes) = 16"
  by (simp add: hashlib_md5_def bytes_of_word_def split: prod.splits)

lemma store_upsert_last:
  "i \<in> fst ` set rs \<Longrightarrow>
   \<exists>k < length rs. fst (rs ! k) = i
     \<and> (\<forall>k' < length rs. fst (rs ! k') = i \<longrightarrow> k' \<le> k)
     \<and> store_upsert s rs i = Some (snd (rs ! k))"
proof (induction rs rule: rev_induct)
  case Nil
  then show ?case by simp
next
  case (snoc r rs)
  obtain i' v' m' where r: "r = (i', v', m')" by (cases r)
  show ?case
  proof (cases "i' = i")
    case True
    have "fst ((rs @ [r]) ! length rs) = i" using True r by simp
    moreover have "\<forall>k' < length (rs @ [r]). fst ((rs @ [r]) ! k') = i \<longrightarrow> k' \<le> length rs"
      by simp
    moreover have "store_upsert s (rs @ [r]) i = Some (snd ((rs @ [r]) ! length rs))"
      using True r by (simp add: store_upsert_snoc)
    ultimately show ?thesis
      by (intro exI [of _ "length rs"]) simp
  next
    case False
    with snoc.prems r have "i \<in> fst ` set rs" by auto
    from snoc.IH [OF this] obtain k where
      k: "k < length rs" "fst (rs ! k) = i"
         "\<forall>k' < length rs. fst (rs ! k') = i \<longrightarrow> k' \<le> k"
         "store_upsert s rs i = Some (snd (rs ! k))"
      by blast
    have "fst ((rs @ [r]) ! k) = i" using k by (simp add: nth_append)
    moreover have "\<forall>k' < length (rs @ [r]). fst ((rs @ [r]) ! k') = i \<longrightarrow> k' \<le> k"
      using k(3) False r by (auto simp: nth_append less_Suc_eq)
    moreover have "store_upsert s (rs @ [r]) i = Some (snd ((rs @ [r]) ! k))"
      using k False r by (simp add: store_upsert_snoc nth_append)
    ultimately show ?thesis
      using k(1) by (intro exI [of _ k]) simp
  qed
qed

lemma zip3_nth:
  "j < length (zip3 ids embeddings metadatas) \<Longrightarrow>
   zip3 ids embeddings metadatas ! j = (ids ! j, embeddings ! j, metadatas ! j)"
  by (simp add: zip3_def)

lemma length_zip3:
  "length (zip3 ids embeddings metadatas) =
   min (length ids) (min (length embeddings) (length metadatas))"
  by (simp add: zip3_def)

lemma zip3_take:
  "n = min (length ids) (min (length embeddings) (length metadatas)) \<Longrightarrow>
   zip3 ids embeddings metadatas = zip3 (take n ids) (take n embeddings) (take n metadatas)"
  unfolding zip3_def by (simp add: take_zip [symmetric])

lemma zip3_projections:
  "n = min (length ids) (min (length embeddings) (length metadatas)) \<Longrightarrow>
   map fst (zip3 ids embeddings metadatas) = take n ids
   \<and> map (\<lambda>r. fst (snd r)) (zip3 ids embeddings metadatas) = take n embeddings
   \<and> map (\<lambda>r. snd (snd r)) (zip3 ids embeddings metadatas) = take n metadatas"
  by (auto simp: list_eq_iff_nth_eq zip3_def)

lemma docs_embedding_completes:
  assumes "completes (docs_embedding md5 pinecone openai docs)"
  shows "upserts (trace (docs_embedding md5 pinecone openai docs)) =
           [zip3 (map (\<lambda>doc. doc_id md5 (the (source_url doc))) docs)
              (returned_vectors openai (embedding_calls (trace (docs_embedding md5 pinecone openai docs))))
              (map (\<lambda>doc. sanitize (metadata doc)) docs)]
       \<and> embedding_calls (trace (docs_embedding md5 pinecone openai docs)) = [map page_content docs]
       \<and> list_all (\<lambda>doc. source_url doc \<noteq> None) docs"
proof -
  from assms obtain t res where run: "docs_embedding md5 pinecone openai docs = (t, Inr res)"
    by (auto simp: completes_iff)
  from docs_embedding_run [OF run] obtain index kw embeddings metadatas doc_ids where
    e: "embeddings_create openai model_name (map page_content docs) = Inr embeddings" and
    l: "docs_loop md5 docs [] [] = Inr (metadatas, doc_ids)" and
    t: "t = [CreateIndex ''dagster-knowledge'' 1536,
             GetIndex ''dagster-knowledge'' ''dagster-docs'',
             EmbeddingsCreate model_name (map page_content docs),
             Upsert index (zip3 doc_ids embeddings metadatas) kw]"
    by blast
  from e l t run show ?thesis
    by (auto simp: docs_loop_Inr trace_def returned_vectors_def)
qed

section \<open>Claims on the sanitization\<close>

text \<open>
  C3. For every metadata mapping \<open>M\<close> (a dict: its keys are distinct), the
  sanitization returns exactly the entries of \<open>M\<close> whose value is a string, an
  integer, a float or a boolean, in the order \<open>M\<close> has them, and nothing else. The
  test accepts these four kinds of value and rejects every other one; the result is
  a plain value for every \<open>M\<close>, there is no error it could return.
\<close>

theorem sanitize_exactly_primitive_entries:
  assumes "wf_dict M"
  shows "sanitize M = filter (\<lambda>(k, v). isinstance_primitive v) M
       \<and> (\<forall>v. isinstance_primitive v \<longleftrightarrow>
             (\<exists>s. v = VStr s) \<or> (\<exists>i. v = VInt i) \<or> (\<exists>f. v = VFloat f) \<or> (\<exists>b. v = VBool b))"
proof
  have "(\<lambda>(k, v). isinstance_primitive v) = (\<lambda>kv :: string \<times> pyval. isinstance_primitive (snd kv))"
    by (simp add: fun_eq_iff)
  then show "sanitize M = filter (\<lambda>(k, v). isinstance_primitive v) M"
    using sanitize_filter [OF assms] by simp
next
  show "\<forall>v. isinstance_primitive v \<longleftrightarrow>
          (\<exists>s. v = VStr s) \<or> (\<exists>i. v = VInt i) \<or> (\<exists>f. v = VFloat f) \<or> (\<exists>b. v = VBool b)"
  proof
    fix v
    show "isinstance_primitive v \<longleftrightarrow>
          (\<exists>s. v = VStr s) \<or> (\<exists>i. v = VInt i) \<or> (\<exists>f. v = VFloat f) \<or> (\<exists>b. v = VBool b)"
      by (cases v) simp_all
  qed
qed

theorem sanitize_exactly_primitive_entries_witness:
  "wf_dict example_metadata
   \<and> sanitize example_metadata =
       [(''title'', VStr ''Asset fails''), (''number'', VInt 7),
        (''score'', VFloat (Float 3 (- 1))), (''locked'', VBool False)]"
  using sanitize_exactly_primitive_entries [of example_metadata]
  by (simp add: wf_dict_def example_metadata_def)

text \<open>
  C7. Sanitizing is idempotent: sanitizing a sanitized mapping changes nothing.
  This holds for every association list, also one that repeats a key.
\<close>

theorem sanitize_idempotent: "sanitize (sanitize M) = sanitize M"
proof -
  have "sanitize (sanitize M) = filter (\<lambda>kv. isinstance_primitive (snd kv)) (sanitize M)"
    by (rule sanitize_filter [OF sanitize_wf])
  also have "\<dots> = sanitize M"
    using sanitize_primitive [of M] by (simp add: filter_id_conv)
  finally show ?thesis .
qed

section \<open>Claims on the embedding assets\<close>

text \<open>
  C1. Take any of the three embedding assets and a run of it that completes, with a
  provider that answers one vector per input text, in order: whenever a call on
  texts \<open>ts\<close> returns \<open>vs\<close>, the two lists are related position by position by some
  relation \<open>R\<close> between a text and a vector (\<open>one_vector_per_text R\<close>, which makes
  the lengths equal). Then the texts sent to the provider, the embeddings it returned,
  the sanitized metadata mappings and the assigned ids all have the length of the
  input list, and position \<open>i\<close> of each belongs to document \<open>i\<close>: the text is its
  page content, the embedding is \<open>R\<close>-related to that text, the metadata is its
  sanitized metadata, the id is the one assigned to it, and record \<open>i\<close> of the upsert
  is made of exactly these.
\<close>

theorem embedding_sequences_aligned:
  assumes provider: "one_vector_per_text R openai"
      and run: "completes (run_asset a md5 openai pinecone docs)"
  shows "\<exists>ids.
     (let t = trace (run_asset a md5 openai pinecone docs);
          texts = concat (embedding_calls t);
          embeddings = returned_vectors openai (embedding_calls t);
          metadatas = map (\<lambda>doc. sanitize (metadata doc)) docs
      in upserts t = [zip3 ids embeddings metadatas]
       \<and> length texts = length docs \<and> length embeddings = length docs
       \<and> length metadatas = length docs \<and> length ids = length docs
       \<and> (\<forall>i < length docs.
             texts ! i = page_content (docs ! i)
           \<and> R (page_content (docs ! i)) (embeddings ! i)
           \<and> metadatas ! i = sanitize (metadata (docs ! i))
           \<and> assigned_id a md5 i (docs ! i) = Some (ids ! i)
           \<and> zip3 ids embeddings metadatas ! i = (ids ! i, embeddings ! i, metadatas ! i)))"
proof -
  let ?t = "trace (run_asset a md5 openai pinecone docs)"
  let ?texts = "concat (embedding_calls ?t)"
  let ?embeddings = "returned_vectors openai (embedding_calls ?t)"
  let ?metas = "map (\<lambda>doc. sanitize (metadata doc)) docs"
  from run_asset_completes [OF run] obtain ids where
    ups: "upserts ?t = [zip3 ids ?embeddings ?metas]" and
    ids: "list_all2 (\<lambda>id (i, doc). assigned_id a md5 i doc = Some id) ids (enumerate 0 docs)" and
    calls: "embedding_calls ?t =
              (case a of GithubDiscussions \<Rightarrow> chunks BATCH_SIZE (map page_content docs)
                       | _ \<Rightarrow> [map page_content docs])" and
    ok: "list_all (\<lambda>c. \<exists>vs. embeddings_create openai model_name c = Inr vs) (embedding_calls ?t)"
    by blast
  have texts: "?texts = map page_content docs"
    using calls by (cases a) (simp_all add: concat_chunks BATCH_SIZE_def)
  have rel: "list_all2 R ?texts ?embeddings"
    by (rule returned_vectors_related [OF provider ok])
  have len_e: "length ?embeddings = length docs"
    using list_all2_lengthD [OF rel] texts by simp
  have len_i: "length ids = length docs"
    using list_all2_lengthD [OF ids] by simp
  have pos: "texts' ! i = page_content (docs ! i)
           \<and> R (page_content (docs ! i)) (?embeddings ! i)
           \<and> ?metas ! i = sanitize (metadata (docs ! i))
           \<and> assigned_id a md5 i (docs ! i) = Some (ids ! i)
           \<and> zip3 ids ?embeddings ?metas ! i = (ids ! i, ?embeddings ! i, ?metas ! i)"
    if "i < length docs" and "texts' = ?texts" for i texts'
  proof -
    have "R (?texts ! i) (?embeddings ! i)"
      using rel that(1) texts by (simp add: list_all2_conv_all_nth)
    moreover have "assigned_id a md5 i (docs ! i) = Some (ids ! i)"
      using ids that(1) len_i by (auto simp: list_all2_conv_all_nth nth_enumerate_eq)
    ultimately show ?thesis
      using that texts len_e len_i by (simp add: zip3_def)
  qed
  show ?thesis
    unfolding Let_def
    using ups texts len_e len_i pos by (intro exI [of _ ids]) simp
qed

theorem embedding_sequences_aligned_witness:
  "one_vector_per_text (\<lambda>t v. v = [Float (int (length t)) 0]) example_openai
   \<and> completes (run_asset Docs example_digest example_openai example_pinecone example_docs)
   \<and> upserts (trace (run_asset Docs example_digest example_openai example_pinecone example_docs)) =
       [[(''612f'', [Float 6 0], [(''source'', VStr ''/a''), (''title'', VStr ''Assets'')]),
         (''622f'', [Float 3 0], [(''depth'', VInt 2), (''source'', VStr ''/b'')])]]"
proof -
  have p: "one_vector_per_text (\<lambda>t v. v = [Float (int (length t)) 0]) example_openai"
    by (simp add: one_vector_per_text_def example_openai_def list_all2_conv_all_nth)
  have c: "completes (run_asset Docs example_digest example_openai example_pinecone example_docs)"
    by (simp add: completes_def run_asset_def docs_embedding_def io_bind_def io_call_def
          io_return_def example_openai_def example_pinecone_def example_docs_def
          dict_getitem_def py_encode_def)
  have u: "upserts (trace (run_asset Docs example_digest example_openai example_pinecone example_docs)) =
       [[(''612f'', [Float 6 0], [(''source'', VStr ''/a''), (''title'', VStr ''Assets'')]),
         (''622f'', [Float 3 0], [(''depth'', VInt 2), (''source'', VStr ''/b'')])]]"
    by (simp add: trace_def run_asset_def docs_embedding_def io_bind_def io_call_def
          io_return_def example_openai_def example_pinecone_def example_docs_def
          dict_getitem_def py_encode_def zip3_def sanitize_def sanitize_step_def
          example_digest_def encode_def encode_char_def hexdigest_def hex_byte_def hex_digits_def)
  from embedding_sequences_aligned [OF p c] p c u show ?thesis by simp
qed



text \<open>
  C8. In every run of the discussions asset, completed or not, each provider call is
  followed at once by a pause of one second (\<open>Sleep 1000\<close>), unless the run ended in
  that call because it raised. In a run that completes, the trace is: create the
  index, get it, then for each chunk in order its call and its pause, then the
  upsert. So the ceiling of N / 20 calls alternate with as many pauses, nothing
  stands between a call and its pause, and the pause is made after the last chunk as
  well.
\<close>

theorem pause_after_each_call:
  "pauses_follow_calls (trace (github_discussions_embeddings openai pinecone docs))
   \<and> (completes (github_discussions_embeddings openai pinecone docs) \<longrightarrow>
        (\<exists>index vectors kw.
           trace (github_discussions_embeddings openai pinecone docs) =
             [CreateIndex ''dagster-knowledge'' 1536, GetIndex ''dagster-knowledge'' ''dagster-github'']
             @ concat (map (\<lambda>c. [EmbeddingsCreate model_name c, Sleep 1000])
                        (chunks BATCH_SIZE (map page_content docs)))
             @ [Upsert index vectors kw])
      \<and> pauses (trace (github_discussions_embeddings openai pinecone docs)) =
          replicate (ceil_div (length docs) BATCH_SIZE) (Sleep 1000))"
proof
  let ?run = "github_discussions_embeddings openai pinecone docs"
  let ?texts = "map page_content docs"
  from github_discussions_embeddings_trace [of openai docs pinecone] obtain tb r where
    b: "embed_batches openai BATCH_SIZE ?texts 0 [] = (tb, r)" and
    t: "trace ?run = [CreateIndex ''dagster-knowledge'' 1536]
      \<or> trace ?run = [CreateIndex ''dagster-knowledge'' 1536, GetIndex ''dagster-knowledge'' ''dagster-github'']
      \<or> trace ?run = [CreateIndex ''dagster-knowledge'' 1536, GetIndex ''dagster-knowledge'' ''dagster-github''] @ tb
      \<or> (\<exists>e index vectors kw. r = Inr e \<and> trace ?run =
           [CreateIndex ''dagster-knowledge'' 1536, GetIndex ''dagster-knowledge'' ''dagster-github''] @ tb @
           [Upsert index vectors kw])"
    by blast
  have tb: "pauses_follow_calls tb"
    using embed_batches_pauses [of openai BATCH_SIZE ?texts 0 "[]"] b by simp
  have "pauses_follow_calls (tb @ [Upsert index vectors kw])" if "r = Inr e" for e index vectors kw
  proof -
    from embed_batches_Inr [of openai BATCH_SIZE ?texts 0 "[]" tb e] b that
    have "tb = concat (map call_and_pause (chunks BATCH_SIZE ?texts))"
      by (auto simp: BATCH_SIZE_def)
    then show ?thesis by (simp add: pauses_follow_calls_rounds)
  qed
  with t tb show "pauses_follow_calls (trace ?run)" by auto
next
  let ?run = "github_discussions_embeddings openai pinecone docs"
  let ?texts = "map page_content docs"
  show "completes ?run \<longrightarrow>
        (\<exists>index vectors kw. trace ?run =
             [CreateIndex ''dagster-knowledge'' 1536, GetIndex ''dagster-knowledge'' ''dagster-github'']
             @ concat (map (\<lambda>c. [EmbeddingsCreate model_name c, Sleep 1000]) (chunks BATCH_SIZE ?texts))
             @ [Upsert index vectors kw])
      \<and> pauses (trace ?run) = replicate (ceil_div (length docs) BATCH_SIZE) (Sleep 1000)"
  proof
    assume "completes ?run"
    then obtain t res where run: "?run = (t, Inr res)" by (auto simp: completes_iff)
    from github_discussions_embeddings_run [OF run] obtain index kw tb embeddings where
      b: "embed_batches openai BATCH_SIZE ?texts 0 [] = (tb, Inr embeddings)" and
      t: "t = [CreateIndex ''dagster-knowledge'' 1536, GetIndex ''dagster-knowledge'' ''dagster-github''] @ tb @
              [Upsert index
                 (zip3 (map str_int (range_list (length docs))) embeddings
                    (map (\<lambda>doc. sanitize (metadata doc)) docs)) kw]"
      by blast
    from embed_batches_Inr [OF b] have
      tb: "tb = concat (map call_and_pause (chunks BATCH_SIZE ?texts))"
      by (auto simp: BATCH_SIZE_def)
    have cp: "call_and_pause = (\<lambda>c. [EmbeddingsCreate model_name c, Sleep 1000])"
      by (simp add: fun_eq_iff call_and_pause_def)
    have "pauses t = pauses tb"
      using t by (simp add: pauses_def)
    also have "\<dots> = replicate (length (chunks BATCH_SIZE ?texts)) (Sleep 1000)"
      using tb by (simp add: pauses_rounds)
    also have "length (chunks BATCH_SIZE ?texts) = ceil_div (length docs) BATCH_SIZE"
      by (simp add: length_chunks BATCH_SIZE_def)
    finally have "pauses t = replicate (ceil_div (length docs) BATCH_SIZE) (Sleep 1000)" .
    moreover have "trace ?run = t" using run by (simp add: trace_def)
    ultimately show "(\<exists>index vectors kw. trace ?run =
             [CreateIndex ''dagster-knowledge'' 1536, GetIndex ''dagster-knowledge'' ''dagster-github'']
             @ concat (map (\<lambda>c. [EmbeddingsCreate model_name c, Sleep 1000]) (chunks BATCH_SIZE ?texts))
             @ [Upsert index vectors kw])
      \<and> pauses (trace ?run) = replicate (ceil_div (length docs) BATCH_SIZE) (Sleep 1000)"
      using t tb cp by auto
  qed
qed

theorem pause_after_each_call_witness:
  "completes (github_discussions_embeddings example_openai example_pinecone example_discussions)
   \<and> pauses_follow_calls
       (trace (github_discussions_embeddings example_openai example_pinecone example_discussions))
   \<and> pauses (trace (github_discussions_embeddings example_openai example_pinecone example_discussions)) =
       [Sleep 1000, Sleep 1000]"
proof -
  have c: "completes (github_discussions_embeddings example_openai example_pinecone example_discussions)"
    by code_simp
  have n: "ceil_div (length example_discussions) BATCH_SIZE = Suc (Suc 0)"
    by (simp add: example_discussions_def ceil_div_def BATCH_SIZE_def)
  from pause_after_each_call [of example_openai example_pinecone example_discussions] c n
  show ?thesis by simp
qed

text \<open>
  C4, counterexample. On an empty document list the issues asset and the docs asset
  do not make zero provider calls: each of them calls the provider once, with an
  empty list of texts.
\<close>

theorem empty_input_one_provider_call:
  "length (embedding_calls (trace (github_issues_embeddings example_openai example_pinecone []))) = 1
   \<and> length (embedding_calls (trace (docs_embedding example_digest example_pinecone example_openai []))) = 1"
  by (simp add: github_issues_embeddings_def docs_embedding_def trace_def io_bind_def io_call_def
        io_return_def example_openai_def example_pinecone_def zip3_def range_list_def)

text \<open>
  C4, amended. On an empty document list the discussions asset makes no provider
  call, in any run. A run of any of the three assets that completes on the empty
  list has made no provider call in the discussions asset and exactly one, with an
  empty list of texts, in the issues asset and in the docs asset; it has performed
  one upsert, of no records; and its output metadata reports the count zero (the
  docs asset reports as well the dimension of what the provider returned and an
  empty list of URLs).
\<close>

theorem empty_input_run:
  "embedding_calls (trace (github_discussions_embeddings openai pinecone [])) = []
   \<and> (completes (run_asset a md5 openai pinecone []) \<longrightarrow>
         embedding_calls (trace (run_asset a md5 openai pinecone [])) =
           (case a of GithubDiscussions \<Rightarrow> [] | _ \<Rightarrow> [[]])
       \<and> upserts (trace (run_asset a md5 openai pinecone [])) = [[]]
       \<and> snd (run_asset a md5 openai pinecone []) =
           Inr (case a of
                  GithubIssues \<Rightarrow> [(''number_of_issues'', VInt 0)]
                | GithubDiscussions \<Rightarrow> [(''number_of_discussions'', VInt 0)]
                | Docs \<Rightarrow>
                    [(''documents_embedded'', VInt 0),
                     (''embedding_dimension'',
                        VInt (embedding_dimension (returned_vectors openai [[]]))),
                     (''urls_processed'', VList [])]))"
proof (intro conjI impI)
  show "embedding_calls (trace (github_discussions_embeddings openai pinecone [])) = []"
    by (rule github_discussions_embeddings_empty_calls)
next
  let ?run = "run_asset a md5 openai pinecone []"
  assume "completes ?run"
  then obtain t res where run: "?run = (t, Inr res)" by (auto simp: completes_iff)
  have goal: "embedding_calls t = (case a of GithubDiscussions \<Rightarrow> [] | _ \<Rightarrow> [[]])
       \<and> upserts t = [[]]
       \<and> res = (case a of
                  GithubIssues \<Rightarrow> [(''number_of_issues'', VInt 0)]
                | GithubDiscussions \<Rightarrow> [(''number_of_discussions'', VInt 0)]
                | Docs \<Rightarrow>
                    [(''documents_embedded'', VInt 0),
                     (''embedding_dimension'',
                        VInt (embedding_dimension (returned_vectors openai [[]]))),
                     (''urls_processed'', VList [])])"
  proof (cases a)
    case GithubIssues
    with run have "github_issues_embeddings openai pinecone [] = (t, Inr res)"
      by (simp add: run_asset_def)
    from github_issues_embeddings_run [OF this] GithubIssues show ?thesis
      by (auto simp: zip3_def range_list_def)
  next
    case GithubDiscussions
    with run have "github_discussions_embeddings openai pinecone [] = (t, Inr res)"
      by (simp add: run_asset_def)
    from github_discussions_embeddings_run [OF this] GithubDiscussions show ?thesis
      by (auto simp: zip3_def range_list_def embed_batches_empty)
  next
    case Docs
    with run have "docs_embedding md5 pinecone openai [] = (t, Inr res)"
      by (simp add: run_asset_def)
    from docs_embedding_run [OF this] Docs show ?thesis
      by (auto simp: zip3_def returned_vectors_def)
  qed
  from goal run show "embedding_calls (trace ?run) = (case a of GithubDiscussions \<Rightarrow> [] | _ \<Rightarrow> [[]])"
    by (simp add: trace_def)
  from goal run show "upserts (trace ?run) = [[]]"
    by (simp add: trace_def)
  from goal run show "snd ?run =
           Inr (case a of
                  GithubIssues \<Rightarrow> [(''number_of_issues'', VInt 0)]
                | GithubDiscussions \<Rightarrow> [(''number_of_discussions'', VInt 0)]
                | Docs \<Rightarrow>
                    [(''documents_embedded'', VInt 0),
                     (''embedding_dimension'',
                        VInt (embedding_dimension (returned_vectors openai [[]]))),
                     (''urls_processed'', VList [])])"
    by simp
qed

theorem empty_input_run_witness:
  "completes (run_asset GithubIssues example_digest example_openai example_pinecone [])
   \<and> embedding_calls (trace (run_asset GithubIssues example_digest example_openai example_pinecone [])) = [[]]
   \<and> upserts (trace (run_asset GithubIssues example_digest example_openai example_pinecone [])) = [[]]
   \<and> snd (run_asset GithubIssues example_digest example_openai example_pinecone []) =
       Inr [(''number_of_issues'', VInt 0)]"
proof -
  have c: "completes (run_asset GithubIssues example_digest example_openai example_pinecone [])"
    by code_simp
  from empty_input_run [of example_openai example_pinecone GithubIssues example_digest] c
  show ?thesis by simp
qed

text \<open>
  C10. In a run of the scraping asset that completes, the pages scraped are the
  first four URLs of the sitemap (all of them when it has fewer), in order; the
  documents returned are the answers that are not \<open>None\<close>, in order, so there are
  at most four of them and at most as many as URLs attempted; the output metadata
  \<open>pages scraped\<close> is the number of URLs attempted, the smaller of four and the
  length of the sitemap, and it exceeds the number of documents by the number of
  URLs whose scrape returned \<open>None\<close>.
\<close>

theorem scrape_first_four:
  assumes "completes (docs_scrape_raw scraper)"
  shows "\<exists>sitemap answers documents.
      parse_sitemap scraper = Inr sitemap
    \<and> snd (docs_scrape_raw scraper) = Inr documents
    \<and> scrape_calls (trace (docs_scrape_raw scraper)) = take 4 sitemap
    \<and> list_all2 (\<lambda>url a. scrape_page scraper url = Inr a) (take 4 sitemap) answers
    \<and> documents = List.map_filter (\<lambda>a. a) answers
    \<and> length documents \<le> 4
    \<and> output_metadata (trace (docs_scrape_raw scraper)) =
        [[(''pages scraped'', VInt (int (min 4 (length sitemap))))]]
    \<and> length documents + length (filter (\<lambda>a. a = None) answers) = min 4 (length sitemap)"
proof -
  from assms obtain t documents where run: "docs_scrape_raw scraper = (t, Inr documents)"
    by (auto simp: completes_iff)
  from docs_scrape_raw_run [OF run] obtain sitemap answers where
    s: "parse_sitemap scraper = Inr sitemap" and
    a: "list_all2 (\<lambda>url a. scrape_page scraper url = Inr a) (take 4 sitemap) answers" and
    d: "documents = List.map_filter (\<lambda>a. a) answers" and
    t: "t = [ParseSitemap] @ concat (map (\<lambda>url. [ScrapePage url, Sleep 500]) (take 4 sitemap))
          @ [AddOutputMetadata [(''pages scraped'', VInt (int (length (take 4 sitemap))))]]"
    by blast
  have len: "length answers = min 4 (length sitemap)"
    using list_all2_lengthD [OF a] by (simp add: min.commute)
  have split: "length (List.map_filter (\<lambda>a. a) xs) + length (filter (\<lambda>a. a = None) xs) = length xs"
    for xs :: "document option list"
    by (induction xs) (simp_all add: List.map_filter_simps split: option.splits)
  have "length documents \<le> 4"
    using length_map_filter_le [of "\<lambda>a. a" answers] d len by simp
  moreover have "length documents + length (filter (\<lambda>a. a = None) answers) = min 4 (length sitemap)"
    using split [of answers] d len by simp
  moreover have "scrape_calls t = take 4 sitemap" using t by simp
  moreover have "output_metadata t = [[(''pages scraped'', VInt (int (min 4 (length sitemap))))]]"
    using t by (simp add: min.commute)
  ultimately show ?thesis
    using s a d run by (intro exI [of _ sitemap] exI [of _ answers] exI [of _ documents])
      (simp add: trace_def)
qed

theorem scrape_first_four_witness:
  "completes (docs_scrape_raw example_scraper)
   \<and> scrape_calls (trace (docs_scrape_raw example_scraper)) = [''/a'', ''/gone'', ''/b'', ''/c'']
   \<and> output_metadata (trace (docs_scrape_raw example_scraper)) = [[(''pages scraped'', VInt 4)]]
   \<and> snd (docs_scrape_raw example_scraper) =
       Inr [\<lparr>page_content = ''/a'', metadata = [(''source'', VStr ''/a'')]\<rparr>,
            \<lparr>page_content = ''/b'', metadata = [(''source'', VStr ''/b'')]\<rparr>,
            \<lparr>page_content = ''/c'', metadata = [(''source'', VStr ''/c'')]\<rparr>]"
proof -
  have c: "completes (docs_scrape_raw example_scraper)"
    by code_simp
  have s: "scrape_calls (trace (docs_scrape_raw example_scraper)) = [''/a'', ''/gone'', ''/b'', ''/c'']"
    by code_simp
  have m: "output_metadata (trace (docs_scrape_raw example_scraper)) = [[(''pages scraped'', VInt 4)]]"
    by code_simp
  have d: "snd (docs_scrape_raw example_scraper) =
       Inr [\<lparr>page_content = ''/a'', metadata = [(''source'', VStr ''/a'')]\<rparr>,
            \<lparr>page_content = ''/b'', metadata = [(''source'', VStr ''/b'')]\<rparr>,
            \<lparr>page_content = ''/c'', metadata = [(''source'', VStr ''/c'')]\<rparr>]"
    by code_simp
  from scrape_first_four [OF c] c s m d show ?thesis by simp
qed

text \<open>
  C6. In a run of the issues asset or of the discussions asset that completes, the
  provider is called on the texts of the documents (at once, or chunk by chunk), and
  the one upsert receives \<open>zip(ids, embeddings, metadata)\<close> where the ids are
  \<open>str(i)\<close> for \<open>i\<close> from 0 to the number of documents less one, the embeddings are
  what the provider returned and the metadata are the sanitized metadata of the
  documents. The id at position \<open>i\<close> is the decimal representation of \<open>i\<close> (digits
  only, no leading zero but for 0 itself, and of value \<open>i\<close>); record \<open>j\<close> of the upsert
  is made of \<open>str(j)\<close>, the \<open>j\<close>-th returned vector and the sanitized metadata of
  document \<open>j\<close>; and when the provider answers one vector per text, in order, there
  is a record for every document and its vector is that of the document's text.
\<close>

theorem sequential_ids:
  assumes asset: "a = GithubIssues \<or> a = GithubDiscussions"
      and run: "completes (run_asset a md5 openai pinecone docs)"
  shows "(let t = trace (run_asset a md5 openai pinecone docs);
              embeddings = returned_vectors openai (embedding_calls t);
              metadatas = map (\<lambda>doc. sanitize (metadata doc)) docs;
              ids = map str_int (range_list (length docs));
              records = zip3 ids embeddings metadatas
          in upserts t = [records]
           \<and> embedding_calls t =
               (case a of GithubDiscussions \<Rightarrow> chunks BATCH_SIZE (map page_content docs)
                        | _ \<Rightarrow> [map page_content docs])
           \<and> length ids = length docs
           \<and> (\<forall>i < length docs.
                 ids ! i = str_int (int i)
               \<and> set (ids ! i) \<subseteq> set ''0123456789''
               \<and> decimal_value (ids ! i) = i
               \<and> (hd (ids ! i) = CHR ''0'' \<longrightarrow> i = 0))
           \<and> length records = min (length docs) (length embeddings)
           \<and> (\<forall>j < length records.
                 records ! j = (str_int (int j), embeddings ! j, sanitize (metadata (docs ! j))))
           \<and> (one_vector_per_text R openai \<longrightarrow>
                 length records = length docs
               \<and> (\<forall>i < length docs. R (page_content (docs ! i)) (embeddings ! i))))"
proof -
  let ?t = "trace (run_asset a md5 openai pinecone docs)"
  let ?E = "returned_vectors openai (embedding_calls ?t)"
  let ?M = "map (\<lambda>doc. sanitize (metadata doc)) docs"
  let ?ids = "map str_int (range_list (length docs))"
  let ?recs = "zip3 ?ids ?E ?M"
  from run_asset_completes [OF run] obtain ids where
    ups: "upserts ?t = [zip3 ids ?E ?M]" and
    ids: "list_all2 (\<lambda>id (i, doc). assigned_id a md5 i doc = Some id) ids (enumerate 0 docs)" and
    calls: "embedding_calls ?t =
              (case a of GithubDiscussions \<Rightarrow> chunks BATCH_SIZE (map page_content docs)
                       | _ \<Rightarrow> [map page_content docs])" and
    ok: "list_all (\<lambda>c. \<exists>vs. embeddings_create openai model_name c = Inr vs) (embedding_calls ?t)"
    by blast
  have len: "length ids = length docs" using list_all2_lengthD [OF ids] by simp
  have nth: "ids ! i = str_int (int i)" if "i < length docs" for i
    using ids that len asset
    by (auto simp: list_all2_conv_all_nth nth_enumerate_eq assigned_id_def)
  have eq: "ids = ?ids"
  proof (rule nth_equalityI)
    show "length ids = length ?ids" using len by (simp add: range_list_def)
    show "ids ! i = ?ids ! i" if "i < length ids" for i
      using that len nth [of i] by (simp add: range_list_def)
  qed
  have lenids: "length ?ids = length docs" by (simp add: range_list_def)
  have str: "str_int (int i) = str_nat i" for i by (simp add: str_int_def)
  have c1: "upserts ?t = [?recs]" using ups eq by simp
  have c4: "\<forall>i < length docs.
                 ?ids ! i = str_int (int i)
               \<and> set (?ids ! i) \<subseteq> set ''0123456789''
               \<and> decimal_value (?ids ! i) = i
               \<and> (hd (?ids ! i) = CHR ''0'' \<longrightarrow> i = 0)"
  proof (intro allI impI)
    fix i assume i: "i < length docs"
    have "?ids ! i = str_nat i" using i by (simp add: range_list_def str)
    then show "?ids ! i = str_int (int i)
               \<and> set (?ids ! i) \<subseteq> set ''0123456789''
               \<and> decimal_value (?ids ! i) = i
               \<and> (hd (?ids ! i) = CHR ''0'' \<longrightarrow> i = 0)"
      using str_nat_digits [of i] decimal_value_str_nat [of i] str_nat_leading_zero [of i]
      by (simp add: str)
  qed
  have c5: "length ?recs = min (length docs) (length ?E)"
    using lenids by (simp add: length_zip3)
  have c6: "\<forall>j < length ?recs.
              ?recs ! j = (str_int (int j), ?E ! j, sanitize (metadata (docs ! j)))"
  proof (intro allI impI)
    fix j assume j: "j < length ?recs"
    then have "j < length docs" using c5 by simp
    then have "?ids ! j = str_int (int j)" "?M ! j = sanitize (metadata (docs ! j))"
      by (simp_all add: range_list_def)
    with zip3_nth [OF j] show "?recs ! j = (str_int (int j), ?E ! j, sanitize (metadata (docs ! j)))"
      by simp
  qed
  have texts: "concat (embedding_calls ?t) = map page_content docs"
    using calls by (cases a) (simp_all add: concat_chunks BATCH_SIZE_def)
  have c7: "length ?recs = length docs
          \<and> (\<forall>i < length docs. R (page_content (docs ! i)) (?E ! i))"
    if p: "one_vector_per_text R openai"
  proof -
    have rel: "list_all2 R (map page_content docs) ?E"
      using returned_vectors_related [OF p ok] texts by simp
    then have "length ?E = length docs" using list_all2_lengthD [OF rel] by simp
    moreover have "\<forall>i < length docs. R (page_content (docs ! i)) (?E ! i)"
      using rel by (simp add: list_all2_conv_all_nth)
    ultimately show ?thesis using c5 by simp
  qed
  show ?thesis
    unfolding Let_def
  proof (intro conjI impI)
    show "upserts ?t = [?recs]" by (rule c1)
    show "embedding_calls ?t =
               (case a of GithubDiscussions \<Rightarrow> chunks BATCH_SIZE (map page_content docs)
                        | _ \<Rightarrow> [map page_content docs])" by (rule calls)
    show "length ?ids = length docs" by (rule lenids)
    show "\<forall>i < length docs.
                 ?ids ! i = str_int (int i)
               \<and> set (?ids ! i) \<subseteq> set ''0123456789''
               \<and> decimal_value (?ids ! i) = i
               \<and> (hd (?ids ! i) = CHR ''0'' \<longrightarrow> i = 0)" by (rule c4)
    show "length ?recs = min (length docs) (length ?E)" by (rule c5)
    show "\<forall>j < length ?recs.
              ?recs ! j = (str_int (int j), ?E ! j, sanitize (metadata (docs ! j)))" by (rule c6)
    show "length ?recs = length docs" if "one_vector_per_text R openai"
      using c7 [OF that] by simp
    show "\<forall>i < length docs. R (page_content (docs ! i)) (?E ! i)" if "one_vector_per_text R openai"
      using c7 [OF that] by simp
  qed
qed

theorem sequential_ids_witness:
  "completes (run_asset GithubIssues example_digest example_openai example_pinecone example_docs)
   \<and> embedding_calls (trace
        (run_asset GithubIssues example_digest example_openai example_pinecone example_docs)) =
       [[''Assets'', ''Ops'']]
   \<and> upserts (trace
        (run_asset GithubIssues example_digest example_openai example_pinecone example_docs)) =
       [[(''0'', [Float 6 0], [(''source'', VStr ''/a''), (''title'', VStr ''Assets'')]),
         (''1'', [Float 3 0], [(''depth'', VInt 2), (''source'', VStr ''/b'')])]]
   \<and> completes (run_asset GithubDiscussions example_digest example_openai example_pinecone example_discussions)
   \<and> drop 23 (concat (upserts (trace
        (run_asset GithubDiscussions example_digest example_openai example_pinecone example_discussions)))) =
       [(''23'', [Float 2 0], [(''number'', VInt 23)]),
        (''24'', [Float 2 0], [(''number'', VInt 24)])]"
proof -
  have c: "completes (run_asset GithubIssues example_digest example_openai example_pinecone example_docs)"
    by code_simp
  have e: "embedding_calls (trace
        (run_asset GithubIssues example_digest example_openai example_pinecone example_docs)) =
       [[''Assets'', ''Ops'']]"
    by code_simp
  have u: "upserts (trace
        (run_asset GithubIssues example_digest example_openai example_pinecone example_docs)) =
       [[(''0'', [Float 6 0], [(''source'', VStr ''/a''), (''title'', VStr ''Assets'')]),
         (''1'', [Float 3 0], [(''depth'', VInt 2), (''source'', VStr ''/b'')])]]"
    by code_simp
  have c': "completes (run_asset GithubDiscussions example_digest example_openai example_pinecone example_discussions)"
    by code_simp
  have u': "drop 23 (concat (upserts (trace
        (run_asset GithubDiscussions example_digest example_openai example_pinecone example_discussions)))) =
       [(''23'', [Float 2 0], [(''number'', VInt 23)]),
        (''24'', [Float 2 0], [(''number'', VInt 24)])]"
    by code_simp
  from sequential_ids [OF _ c] sequential_ids [OF _ c'] c e u c' u' show ?thesis by simp
qed

text \<open>
  C9. In a run of any embedding asset that completes, the provider is called on the
  texts of the documents (at once, or chunk by chunk in the discussions asset) and
  the one upsert receives \<open>zip(ids, embeddings, metadata)\<close>: the ids assigned to
  the documents, one for each; the vectors the provider returned; the sanitized
  metadata of the documents, one for each. The upsert has as many records as the
  shortest of the three has elements, which is the smaller of the number of
  documents and the number of returned vectors, and record \<open>j\<close> is made of the
  \<open>j\<close>-th id, the \<open>j\<close>-th vector and the metadata of document \<open>j\<close>. So when the
  provider returns fewer vectors than there are texts, the records are those of the
  first documents, as many as vectors, and the ids and metadata of the other
  documents are not upserted. No error comes of it: whenever the provider and the
  vector store return from their calls (and, in the docs asset, every document
  carries a string under \<open>source\<close>), the run completes, whatever the number of vectors.
\<close>

theorem upsert_truncates_to_shortest:
  "(completes (run_asset a md5 openai pinecone docs) \<longrightarrow>
      (\<exists>ids.
         (let t = trace (run_asset a md5 openai pinecone docs);
              embeddings = returned_vectors openai (embedding_calls t);
              metadatas = map (\<lambda>doc. sanitize (metadata doc)) docs;
              records = zip3 ids embeddings metadatas;
              n = min (length ids) (min (length embeddings) (length metadatas))
          in upserts t = [records]
           \<and> embedding_calls t =
               (case a of GithubDiscussions \<Rightarrow> chunks BATCH_SIZE (map page_content docs)
                        | _ \<Rightarrow> [map page_content docs])
           \<and> list_all2 (\<lambda>id (i, doc). assigned_id a md5 i doc = Some id) ids (enumerate 0 docs)
           \<and> length ids = length docs \<and> length metadatas = length docs
           \<and> length records = n
           \<and> n = min (length docs) (length embeddings)
           \<and> records = zip3 (take n ids) (take n embeddings) (take n metadatas)
           \<and> (\<forall>j < length records.
                 assigned_id a md5 j (docs ! j) = Some (ids ! j)
               \<and> records ! j = (ids ! j, embeddings ! j, sanitize (metadata (docs ! j))))
           \<and> (length embeddings < length docs \<longrightarrow>
                 length records = length embeddings
               \<and> map fst records = take (length embeddings) ids
               \<and> map (\<lambda>r. fst (snd r)) records = embeddings
               \<and> map (\<lambda>r. snd (snd r)) records = take (length embeddings) metadatas))))
   \<and> (openai_returns openai \<and> pinecone_returns pinecone
        \<and> (a = Docs \<longrightarrow> list_all (\<lambda>doc. source_url doc \<noteq> None) docs) \<longrightarrow>
      completes (run_asset a md5 openai pinecone docs))"
proof (intro conjI impI)
  let ?t = "trace (run_asset a md5 openai pinecone docs)"
  let ?E = "returned_vectors openai (embedding_calls ?t)"
  let ?M = "map (\<lambda>doc. sanitize (metadata doc)) docs"
  assume "completes (run_asset a md5 openai pinecone docs)"
  from run_asset_completes [OF this] obtain ids where
    ups: "upserts ?t = [zip3 ids ?E ?M]" and
    ids: "list_all2 (\<lambda>id (i, doc). assigned_id a md5 i doc = Some id) ids (enumerate 0 docs)" and
    calls: "embedding_calls ?t =
              (case a of GithubDiscussions \<Rightarrow> chunks BATCH_SIZE (map page_content docs)
                       | _ \<Rightarrow> [map page_content docs])"
    by blast
  let ?recs = "zip3 ids ?E ?M"
  let ?n = "min (length ids) (min (length ?E) (length ?M))"
  have len: "length ids = length docs" using list_all2_lengthD [OF ids] by simp
  have n: "?n = min (length docs) (length ?E)" using len by simp
  have lrec: "length ?recs = ?n" by (rule length_zip3)
  have tk: "?recs = zip3 (take ?n ids) (take ?n ?E) (take ?n ?M)"
    by (rule zip3_take) simp
  have pos: "\<forall>j < length ?recs.
                 assigned_id a md5 j (docs ! j) = Some (ids ! j)
               \<and> ?recs ! j = (ids ! j, ?E ! j, sanitize (metadata (docs ! j)))"
  proof (intro allI impI)
    fix j assume j: "j < length ?recs"
    then have jd: "j < length docs" using lrec n by simp
    have "assigned_id a md5 j (docs ! j) = Some (ids ! j)"
      using ids jd len by (auto simp: list_all2_conv_all_nth nth_enumerate_eq)
    moreover have "?M ! j = sanitize (metadata (docs ! j))" using jd by simp
    ultimately show "assigned_id a md5 j (docs ! j) = Some (ids ! j)
               \<and> ?recs ! j = (ids ! j, ?E ! j, sanitize (metadata (docs ! j)))"
      using zip3_nth [OF j] by simp
  qed
  have short: "length ?recs = length ?E
               \<and> map fst ?recs = take (length ?E) ids
               \<and> map (\<lambda>r. fst (snd r)) ?recs = ?E
               \<and> map (\<lambda>r. snd (snd r)) ?recs = take (length ?E) ?M"
    if "length ?E < length docs"
  proof -
    from that have k: "?n = length ?E" using len by simp
    from zip3_projections [of ?n ids ?E ?M] k lrec show ?thesis by simp
  qed
  show "\<exists>ids.
         (let t = ?t; embeddings = returned_vectors openai (embedding_calls t);
              metadatas = ?M;
              records = zip3 ids embeddings metadatas;
              n = min (length ids) (min (length embeddings) (length metadatas))
          in upserts t = [records]
           \<and> embedding_calls t =
               (case a of GithubDiscussions \<Rightarrow> chunks BATCH_SIZE (map page_content docs)
                        | _ \<Rightarrow> [map page_content docs])
           \<and> list_all2 (\<lambda>id (i, doc). assigned_id a md5 i doc = Some id) ids (enumerate 0 docs)
           \<and> length ids = length docs \<and> length metadatas = length docs
           \<and> length records = n
           \<and> n = min (length docs) (length embeddings)
           \<and> records = zip3 (take n ids) (take n embeddings) (take n metadatas)
           \<and> (\<forall>j < length records.
                 assigned_id a md5 j (docs ! j) = Some (ids ! j)
               \<and> records ! j = (ids ! j, embeddings ! j, sanitize (metadata (docs ! j))))
           \<and> (length embeddings < length docs \<longrightarrow>
                 length records = length embeddings
               \<and> map fst records = take (length embeddings) ids
               \<and> map (\<lambda>r. fst (snd r)) records = embeddings
               \<and> map (\<lambda>r. snd (snd r)) records = take (length embeddings) metadatas))"
    unfolding Let_def
  proof (intro exI [of _ ids] conjI impI)
    show "upserts ?t = [?recs]" by (rule ups)
    show "embedding_calls ?t =
               (case a of GithubDiscussions \<Rightarrow> chunks BATCH_SIZE (map page_content docs)
                        | _ \<Rightarrow> [map page_content docs])" by (rule calls)
    show "list_all2 (\<lambda>id (i, doc). assigned_id a md5 i doc = Some id) ids (enumerate 0 docs)"
      by (rule ids)
    show "length ids = length docs" by (rule len)
    show "length ?M = length docs" by simp
    show "length ?recs = ?n" by (rule lrec)
    show "?n = min (length docs) (length ?E)" by (rule n)
    show "?recs = zip3 (take ?n ids) (take ?n ?E) (take ?n ?M)" by (rule tk)
    show "\<forall>j < length ?recs.
                 assigned_id a md5 j (docs ! j) = Some (ids ! j)
               \<and> ?recs ! j = (ids ! j, ?E ! j, sanitize (metadata (docs ! j)))" by (rule pos)
    show "length ?recs = length ?E" if "length ?E < length docs" using short [OF that] by simp
    show "map fst ?recs = take (length ?E) ids" if "length ?E < length docs"
      using short [OF that] by simp
    show "map (\<lambda>r. fst (snd r)) ?recs = ?E" if "length ?E < length docs"
      using short [OF that] by simp
    show "map (\<lambda>r. snd (snd r)) ?recs = take (length ?E) ?M" if "length ?E < length docs"
      using short [OF that] by simp
  qed
next
  assume "openai_returns openai \<and> pinecone_returns pinecone
        \<and> (a = Docs \<longrightarrow> list_all (\<lambda>doc. source_url doc \<noteq> None) docs)"
  then show "completes (run_asset a md5 openai pinecone docs)"
    using run_asset_returns by blast
qed

theorem upsert_truncates_to_shortest_witness:
  "openai_returns short_openai \<and> pinecone_returns example_pinecone
   \<and> completes (run_asset GithubIssues example_digest short_openai example_pinecone example_docs)
   \<and> length example_docs = 2
   \<and> embedding_calls (trace
        (run_asset GithubIssues example_digest short_openai example_pinecone example_docs)) =
       [[''Assets'', ''Ops'']]
   \<and> returned_vectors short_openai [[''Assets'', ''Ops'']] = [[Float 6 0]]
   \<and> upserts (trace (run_asset GithubIssues example_digest short_openai example_pinecone example_docs)) =
       [[(''0'', [Float 6 0], [(''source'', VStr ''/a''), (''title'', VStr ''Assets'')])]]"
proof -
  have o: "openai_returns short_openai"
    by (simp add: openai_returns_def short_openai_def)
  have p: "pinecone_returns example_pinecone"
    by (simp add: pinecone_returns_def example_pinecone_def)
  have e: "embedding_calls (trace
        (run_asset GithubIssues example_digest short_openai example_pinecone example_docs)) =
       [[''Assets'', ''Ops'']]"
    by code_simp
  have r: "returned_vectors short_openai [[''Assets'', ''Ops'']] = [[Float 6 0]]"
    by code_simp
  have u: "upserts (trace (run_asset GithubIssues example_digest short_openai example_pinecone example_docs)) =
       [[(''0'', [Float 6 0], [(''source'', VStr ''/a''), (''title'', VStr ''Assets'')])]]"
    by code_simp
  have n: "length example_docs = 2" by (simp add: example_docs_def)
  from upsert_truncates_to_shortest
         [of GithubIssues example_digest short_openai example_pinecone example_docs] o p
  have "completes (run_asset GithubIssues example_digest short_openai example_pinecone example_docs)"
    by simp
  with o p e r u n show ?thesis by simp
qed

text \<open>
  C5. Take a run of the docs asset that completes, and a second one, on other
  documents and with other resources. In each, the provider is called once on the
  texts of the documents and the one upsert receives \<open>zip(ids, embeddings, metadata)\<close>
  with the vectors the provider returned and the sanitized metadata of the
  documents, and the id of every document is the lowercase hexadecimal digest (two
  digits of \<open>0123456789abcdef\<close> for each byte) of the MD5 of the UTF-8 encoding of
  its source URL: a function of the URL alone, and 32 digits long when the digest
  function is MD5 itself. Two documents, of the same run or of
  the two runs, have the same id exactly when they have the same URL or their URLs
  collide under MD5, that is, their encodings are different byte strings with the
  same digest. Record \<open>j\<close> of an upsert is made of the id of document \<open>j\<close>, the
  \<open>j\<close>-th vector and the metadata of document \<open>j\<close>. With the vector store as the
  specification describes it (an upsert overwrites by id), after the records of the
  first run and then those of the second are upserted, the store holds under the id
  of every record of the second run the last record of the second run with that
  id: what the first run wrote there is overwritten.
\<close>

theorem content_derived_ids:
  assumes run: "completes (docs_embedding md5 pinecone openai docs)"
      and rerun: "completes (docs_embedding md5 pinecone' openai' docs')"
  shows "\<exists>ids ids'.
    (let t = trace (docs_embedding md5 pinecone openai docs);
         embeddings = returned_vectors openai (embedding_calls t);
         metadatas = map (\<lambda>doc. sanitize (metadata doc)) docs;
         records = zip3 ids embeddings metadatas;
         t' = trace (docs_embedding md5 pinecone' openai' docs');
         embeddings' = returned_vectors openai' (embedding_calls t');
         metadatas' = map (\<lambda>doc. sanitize (metadata doc)) docs';
         records' = zip3 ids' embeddings' metadatas'
     in upserts t = [records] \<and> upserts t' = [records']
      \<and> embedding_calls t = [map page_content docs]
      \<and> embedding_calls t' = [map page_content docs']
      \<and> length ids = length docs \<and> length ids' = length docs'
      \<and> (md5 = hashlib_md5 \<longrightarrow> (\<forall>i < length docs. length (ids ! i) = 32))
      \<and> (\<forall>i < length docs. \<exists>url.
            map_of (metadata (docs ! i)) ''source'' = Some (VStr url)
          \<and> ids ! i = hexdigest (md5 (encode url))
          \<and> set (ids ! i) \<subseteq> set ''0123456789abcdef''
          \<and> length (ids ! i) = 2 * length (md5 (encode url)))
      \<and> (\<forall>j < length docs'. \<exists>url.
            map_of (metadata (docs' ! j)) ''source'' = Some (VStr url)
          \<and> ids' ! j = hexdigest (md5 (encode url))
          \<and> set (ids' ! j) \<subseteq> set ''0123456789abcdef''
          \<and> length (ids' ! j) = 2 * length (md5 (encode url)))
      \<and> (\<forall>i < length docs. \<forall>j < length docs'. \<forall>url url'.
            source_url (docs ! i) = Some url \<and> source_url (docs' ! j) = Some url' \<longrightarrow>
            (ids ! i = ids' ! j \<longleftrightarrow> url = url' \<or> md5_collision md5 url url'))
      \<and> (\<forall>i < length docs. \<forall>j < length docs. \<forall>url url'.
            source_url (docs ! i) = Some url \<and> source_url (docs ! j) = Some url' \<longrightarrow>
            (ids ! i = ids ! j \<longleftrightarrow> url = url' \<or> md5_collision md5 url url'))
      \<and> length records' = min (length docs') (length embeddings')
      \<and> (\<forall>j < length records'.
            records' ! j = (ids' ! j, embeddings' ! j, sanitize (metadata (docs' ! j))))
      \<and> (\<forall>store. \<forall>j < length records'.
            \<exists>k < length records'.
              ids' ! k = ids' ! j
            \<and> (\<forall>k' < length records'. ids' ! k' = ids' ! j \<longrightarrow> k' \<le> k)
            \<and> store_upsert (store_upsert store records) records' (ids' ! j) =
                Some (embeddings' ! k, metadatas' ! k)))"
proof -
  let ?t = "trace (docs_embedding md5 pinecone openai docs)"
  let ?t' = "trace (docs_embedding md5 pinecone' openai' docs')"
  let ?E = "returned_vectors openai (embedding_calls ?t)"
  let ?E' = "returned_vectors openai' (embedding_calls ?t')"
  let ?ids = "map (\<lambda>doc. doc_id md5 (the (source_url doc))) docs"
  let ?ids' = "map (\<lambda>doc. doc_id md5 (the (source_url doc))) docs'"
  let ?M = "map (\<lambda>doc. sanitize (metadata doc)) docs"
  let ?M' = "map (\<lambda>doc. sanitize (metadata doc)) docs'"
  let ?recs = "zip3 ?ids ?E ?M"
  let ?recs' = "zip3 ?ids' ?E' ?M'"
  from docs_embedding_completes [OF run] have
    ups: "upserts ?t = [?recs]" and
    calls: "embedding_calls ?t = [map page_content docs]" and
    src: "list_all (\<lambda>doc. source_url doc \<noteq> None) docs"
    by simp_all
  from docs_embedding_completes [OF rerun] have
    ups': "upserts ?t' = [?recs']" and
    calls': "embedding_calls ?t' = [map page_content docs']" and
    src': "list_all (\<lambda>doc. source_url doc \<noteq> None) docs'"
    by simp_all
  have id_of: "\<exists>url. map_of (metadata (ds ! i)) ''source'' = Some (VStr url)
        \<and> map (\<lambda>doc. doc_id md5 (the (source_url doc))) ds ! i = hexdigest (md5 (encode url))
        \<and> set (map (\<lambda>doc. doc_id md5 (the (source_url doc))) ds ! i) \<subseteq> set ''0123456789abcdef''
        \<and> length (map (\<lambda>doc. doc_id md5 (the (source_url doc))) ds ! i) = 2 * length (md5 (encode url))"
    if "i < length ds" "list_all (\<lambda>doc. source_url doc \<noteq> None) ds" for i ds
  proof -
    from that obtain url where u: "source_url (ds ! i) = Some url"
      by (auto simp: list_all_length)
    then have "map_of (metadata (ds ! i)) ''source'' = Some (VStr url)"
      by (auto simp: source_url_def split: option.splits pyval.splits)
    moreover have "map (\<lambda>doc. doc_id md5 (the (source_url doc))) ds ! i = hexdigest (md5 (encode url))"
      using that(1) u by (simp add: doc_id_def)
    moreover have "set (hexdigest (md5 (encode url))) \<subseteq> set ''0123456789abcdef''"
      using hexdigest_lowercase [of "md5 (encode url)"] by (simp add: hex_digits_def)
    ultimately show ?thesis by (simp add: length_hexdigest)
  qed
  have same: "map (\<lambda>doc. doc_id md5 (the (source_url doc))) ds ! i =
              map (\<lambda>doc. doc_id md5 (the (source_url doc))) ds' ! j
              \<longleftrightarrow> url = url' \<or> md5_collision md5 url url'"
    if "i < length ds" "j < length ds'"
       "source_url (ds ! i) = Some url \<and> source_url (ds' ! j) = Some url'"
    for i j url url' and ds ds' :: "document list"
    using that by (simp add: doc_id_eq_iff)
  have lrec: "length ?recs' = min (length docs') (length ?E')"
    by (simp add: length_zip3)
  have pos: "\<forall>j < length ?recs'. ?recs' ! j = (?ids' ! j, ?E' ! j, sanitize (metadata (docs' ! j)))"
  proof (intro allI impI)
    fix j assume j: "j < length ?recs'"
    then have "j < length docs'" using lrec by simp
    then have "?M' ! j = sanitize (metadata (docs' ! j))" by simp
    with zip3_nth [OF j] show "?recs' ! j = (?ids' ! j, ?E' ! j, sanitize (metadata (docs' ! j)))"
      by simp
  qed
  have over: "\<exists>k < length ?recs'.
              ?ids' ! k = ?ids' ! j
            \<and> (\<forall>k' < length ?recs'. ?ids' ! k' = ?ids' ! j \<longrightarrow> k' \<le> k)
            \<and> store_upsert (store_upsert store ?recs) ?recs' (?ids' ! j) = Some (?E' ! k, ?M' ! k)"
    if j: "j < length ?recs'" for store j
  proof -
    have fst_nth: "fst (?recs' ! k) = ?ids' ! k" "snd (?recs' ! k) = (?E' ! k, ?M' ! k)"
      if "k < length ?recs'" for k
      using zip3_nth [OF that] by simp_all
    have "?ids' ! j \<in> fst ` set ?recs'"
      using j fst_nth(1) [OF j] by (metis imageI nth_mem)
    from store_upsert_last [OF this, of "store_upsert store ?recs"] obtain k where
      k: "k < length ?recs'" "fst (?recs' ! k) = ?ids' ! j"
         "\<forall>k' < length ?recs'. fst (?recs' ! k') = ?ids' ! j \<longrightarrow> k' \<le> k"
         "store_upsert (store_upsert store ?recs) ?recs' (?ids' ! j) = Some (snd (?recs' ! k))"
      by blast
    have "?ids' ! k = ?ids' ! j" using k(1,2) fst_nth(1) by simp
    moreover have "\<forall>k' < length ?recs'. ?ids' ! k' = ?ids' ! j \<longrightarrow> k' \<le> k"
      using k(3) fst_nth(1) by simp
    moreover have "store_upsert (store_upsert store ?recs) ?recs' (?ids' ! j) = Some (?E' ! k, ?M' ! k)"
      using k(1,4) fst_nth(2) by simp
    ultimately show ?thesis using k(1) by blast
  qed
  show ?thesis
    unfolding Let_def
  proof (rule exI [of _ ?ids], rule exI [of _ ?ids'], intro conjI)
    show "upserts ?t = [?recs]" by (rule ups)
    show "upserts ?t' = [?recs']" by (rule ups')
    show "embedding_calls ?t = [map page_content docs]" by (rule calls)
    show "embedding_calls ?t' = [map page_content docs']" by (rule calls')
    show "length ?ids = length docs" "length ?ids' = length docs'" by simp_all
    show "md5 = hashlib_md5 \<longrightarrow> (\<forall>i < length docs. length (?ids ! i) = 32)"
      by (simp add: doc_id_def length_hexdigest length_hashlib_md5)
    show "\<forall>i < length docs. \<exists>url.
            map_of (metadata (docs ! i)) ''source'' = Some (VStr url)
          \<and> ?ids ! i = hexdigest (md5 (encode url))
          \<and> set (?ids ! i) \<subseteq> set ''0123456789abcdef''
          \<and> length (?ids ! i) = 2 * length (md5 (encode url))"
      using id_of [OF _ src] by blast
    show "\<forall>j < length docs'. \<exists>url.
            map_of (metadata (docs' ! j)) ''source'' = Some (VStr url)
          \<and> ?ids' ! j = hexdigest (md5 (encode url))
          \<and> set (?ids' ! j) \<subseteq> set ''0123456789abcdef''
          \<and> length (?ids' ! j) = 2 * length (md5 (encode url))"
      using id_of [OF _ src'] by blast
    show "\<forall>i < length docs. \<forall>j < length docs'. \<forall>url url'.
            source_url (docs ! i) = Some url \<and> source_url (docs' ! j) = Some url' \<longrightarrow>
            (?ids ! i = ?ids' ! j \<longleftrightarrow> url = url' \<or> md5_collision md5 url url')"
      using same by blast
    show "\<forall>i < length docs. \<forall>j < length docs. \<forall>url url'.
            source_url (docs ! i) = Some url \<and> source_url (docs ! j) = Some url' \<longrightarrow>
            (?ids ! i = ?ids ! j \<longleftrightarrow> url = url' \<or> md5_collision md5 url url')"
      using same by blast
    show "length ?recs' = min (length docs') (length ?E')" by (rule lrec)
    show "\<forall>j < length ?recs'. ?recs' ! j = (?ids' ! j, ?E' ! j, sanitize (metadata (docs' ! j)))"
      by (rule pos)
    show "\<forall>store. \<forall>j < length ?recs'.
            \<exists>k < length ?recs'.
              ?ids' ! k = ?ids' ! j
            \<and> (\<forall>k' < length ?recs'. ?ids' ! k' = ?ids' ! j \<longrightarrow> k' \<le> k)
            \<and> store_upsert (store_upsert store ?recs) ?recs' (?ids' ! j) = Some (?E' ! k, ?M' ! k)"
      using over by blast
  qed
qed

theorem content_derived_ids_witness:
  "completes (docs_embedding hashlib_md5 example_pinecone example_openai example_pages)
   \<and> completes (docs_embedding hashlib_md5 example_pinecone example_openai example_pages_again)
   \<and> upserts (trace (docs_embedding hashlib_md5 example_pinecone example_openai example_pages)) =
       [[(''0639767f3e9eaad729b54037a7e2abf5'', [Float 6 0],
          [(''source'', VStr ''/a''), (''title'', VStr ''Assets'')]),
         (''fa9b2c1834eec27fa9d0fc1cd8723abf'', [Float 3 0],
          [(''depth'', VInt 2), (''source'', VStr (''/caf'' @ [CHR 0xE9]))])]]
   \<and> upserts (trace (docs_embedding hashlib_md5 example_pinecone example_openai example_pages_again)) =
       [[(''fa9b2c1834eec27fa9d0fc1cd8723abf'', [Float 12 0],
          [(''source'', VStr (''/caf'' @ [CHR 0xE9]))])]]
   \<and> store_upsert
        (store_upsert Map.empty
           [(''0639767f3e9eaad729b54037a7e2abf5'', [Float 6 0],
             [(''source'', VStr ''/a''), (''title'', VStr ''Assets'')]),
            (''fa9b2c1834eec27fa9d0fc1cd8723abf'', [Float 3 0],
             [(''depth'', VInt 2), (''source'', VStr (''/caf'' @ [CHR 0xE9]))])])
        [(''fa9b2c1834eec27fa9d0fc1cd8723abf'', [Float 12 0],
          [(''source'', VStr (''/caf'' @ [CHR 0xE9]))])]
        ''fa9b2c1834eec27fa9d0fc1cd8723abf'' =
       Some ([Float 12 0], [(''source'', VStr (''/caf'' @ [CHR 0xE9]))])"
proof -
  have c: "completes (docs_embedding hashlib_md5 example_pinecone example_openai example_pages)"
    by code_simp
  have c': "completes (docs_embedding hashlib_md5 example_pinecone example_openai example_pages_again)"
    by code_simp
  have u: "upserts (trace (docs_embedding hashlib_md5 example_pinecone example_openai example_pages)) =
       [[(''0639767f3e9eaad729b54037a7e2abf5'', [Float 6 0],
          [(''source'', VStr ''/a''), (''title'', VStr ''Assets'')]),
         (''fa9b2c1834eec27fa9d0fc1cd8723abf'', [Float 3 0],
          [(''depth'', VInt 2), (''source'', VStr (''/caf'' @ [CHR 0xE9]))])]]"
    by code_simp
  have u': "upserts (trace (docs_embedding hashlib_md5 example_pinecone example_openai example_pages_again)) =
       [[(''fa9b2c1834eec27fa9d0fc1cd8723abf'', [Float 12 0],
          [(''source'', VStr (''/caf'' @ [CHR 0xE9]))])]]"
    by code_simp
  have s: "store_upsert
        (store_upsert Map.empty
           [(''0639767f3e9eaad729b54037a7e2abf5'', [Float 6 0],
             [(''source'', VStr ''/a''), (''title'', VStr ''Assets'')]),
            (''fa9b2c1834eec27fa9d0fc1cd8723abf'', [Float 3 0],
             [(''depth'', VInt 2), (''source'', VStr (''/caf'' @ [CHR 0xE9]))])])
        [(''fa9b2c1834eec27fa9d0fc1cd8723abf'', [Float 12 0],
          [(''source'', VStr (''/caf'' @ [CHR 0xE9]))])]
        ''fa9b2c1834eec27fa9d0fc1cd8723abf'' =
       Some ([Float 12 0], [(''source'', VStr (''/caf'' @ [CHR 0xE9]))])"
    by (simp add: store_upsert_def)
  from content_derived_ids [OF c c'] c c' u u' s show ?thesis by blast
qed

end
